theory Spec2Isabelle
  imports Main "HOL-Library.Sublist"
begin

section \<open>PharmaScan home page: the batch orchestrator and the XML to CSV converter\<close>

text \<open>
  A shallow embedding of \<^verbatim>\<open>client/src/pages/home.tsx\<close>. JavaScript strings are
  modelled as \<^typ>\<open>string\<close>; a character stands for one code unit in the range 0..255.
  The React state of the component \<^verbatim>\<open>Home\<close> is one record; every
  \<^verbatim>\<open>setX\<close> call is a field update, applied in the order the source issues them.
  Effects on the outside world (toasts, revoked preview URLs, requests sent to the
  extraction endpoint) are appended to logs kept in the same record.
\<close>

subsection \<open>Data model\<close>

text \<open>\<^verbatim>\<open>type ProcessingStage = "idle" | "uploading" | "ocr" | "reasoning" | "validating" | "complete"\<close>\<close>

datatype ProcessingStage =
  StageIdle | StageUploading | StageOcr | StageReasoning | StageValidating | StageComplete

text \<open>The four values the \<^verbatim>\<open>status\<close> field of an image takes in this file.\<close>

datatype Status = Pending | Processing | Complete | Error

text \<open>A browser \<^verbatim>\<open>File\<close>: its name and its payload.\<close>

record jsfile =
  name :: string
  payload :: string

text \<open>
  \<^verbatim>\<open>UploadedImage\<close> is imported from \<^verbatim>\<open>@shared/schema\<close>; its fields are the ones
  this file reads and writes. \<^verbatim>\<open>parsedData\<close> is only ever set to \<^verbatim>\<open>null\<close> here
  (\<open>None\<close>); an absent or \<^verbatim>\<open>undefined\<close> \<^verbatim>\<open>error\<close> is \<open>None\<close>.
\<close>

record UploadedImage =
  image_id :: string
  image_file :: jsfile
  preview :: string
  status :: Status
  progress :: nat
  rawText :: string
  parsedData :: "string option"
  error :: "string option"

text \<open>A call of \<^verbatim>\<open>toast({ title, description, variant })\<close>.\<close>

record toast_call =
  title :: string
  description :: string
  destructive :: bool

text \<open>
  The state of \<^verbatim>\<open>Home\<close> (lines 103-108) and the three logs. \<^verbatim>\<open>progressValue\<close> only
  takes the values the handlers themselves set (0, 10 and 100); the random increments of
  the progress interval are cosmetic and not modelled.
\<close>

record home_state =
  activeStep :: nat
  uploadedImages :: "UploadedImage list"
  xmlOutput :: string
  isProcessing :: bool
  processingStage :: ProcessingStage
  progressValue :: nat
  toasts :: "toast_call list"
  revoked :: "string list"
  requests :: "jsfile list"

text \<open>The state \<^verbatim>\<open>useState\<close> gives the component when it mounts.\<close>

definition initial_state :: home_state where
  "initial_state =
     \<lparr>activeStep = 1, uploadedImages = [], xmlOutput = [], isProcessing = False,
      processingStage = StageIdle, progressValue = 0, toasts = [], revoked = [],
      requests = []\<rparr>"

subsection \<open>Numbers in template literals\<close>

text \<open>
  \<^verbatim>\<open>`${n}`\<close> for a non-negative integer \<open>n\<close> below \<open>10^21\<close>: its decimal digits.
\<close>

definition digit_char :: "nat \<Rightarrow> char" where
  "digit_char d = char_of (48 + d)"

fun digits :: "nat \<Rightarrow> string" where
  "digits n = (if n < 10 then [digit_char n] else digits (n div 10) @ [digit_char (n mod 10)])"

declare digits.simps [simp del]

subsection \<open>The record store: adding, removing and retrying\<close>

text \<open>
  \<^verbatim>\<open>handleFilesSelected\<close> (lines 116-131). \<open>now index\<close> is what \<^verbatim>\<open>Date.now()\<close>
  returns when the callback of \<^verbatim>\<open>files.map\<close> runs for \<open>index\<close>, and
  \<open>createObjectURL index f\<close> the URL the browser hands out there.
\<close>

definition newImage :: "(nat \<Rightarrow> nat) \<Rightarrow> (nat \<Rightarrow> jsfile \<Rightarrow> string) \<Rightarrow> nat \<times> jsfile \<Rightarrow> UploadedImage" where
  "newImage now createObjectURL p =
     (case p of (index, f) \<Rightarrow>
        \<lparr>image_id = digits (now index) @ ''-'' @ digits index @ ''-'' @ name f,
         image_file = f,
         preview = createObjectURL index f,
         status = Pending,
         progress = 0,
         rawText = [],
         parsedData = None,
         error = None\<rparr>)"

definition handleFilesSelected ::
  "(nat \<Rightarrow> nat) \<Rightarrow> (nat \<Rightarrow> jsfile \<Rightarrow> string) \<Rightarrow> jsfile list \<Rightarrow> home_state \<Rightarrow> home_state" where
  "handleFilesSelected now createObjectURL files st =
     (let newImages = map (newImage now createObjectURL) (enumerate 0 files)
      in st\<lparr>uploadedImages := uploadedImages st @ newImages,
             toasts := toasts st @
               [\<lparr>title = ''Documents Added'',
                 description = digits (length files) @ '' file(s) ready for processing.'',
                 destructive = False\<rparr>]\<rparr>)"

text \<open>\<^verbatim>\<open>handleRemoveImage\<close> (lines 133-144).\<close>

definition handleRemoveImage :: "string \<Rightarrow> home_state \<Rightarrow> home_state" where
  "handleRemoveImage i st =
     (let prev = uploadedImages st;
          st1 = (case find (\<lambda>img. image_id img = i) prev of
                   Some found \<Rightarrow> st\<lparr>revoked := revoked st @ [preview found]\<rparr>
                 | None \<Rightarrow> st);
          remaining = filter (\<lambda>img. image_id img \<noteq> i) prev;
          st2 = (if length remaining = 0 then st1\<lparr>xmlOutput := [], activeStep := 1\<rparr> else st1)
      in st2\<lparr>uploadedImages := remaining\<rparr>)"

text \<open>\<^verbatim>\<open>handleRetry\<close> (lines 146-156).\<close>

definition retryImage :: "UploadedImage \<Rightarrow> UploadedImage" where
  "retryImage img =
     (if status img = Error then img\<lparr>status := Pending, error := None, progress := 0\<rparr> else img)"

definition handleRetry :: "home_state \<Rightarrow> home_state" where
  "handleRetry st =
     st\<lparr>uploadedImages := map retryImage (uploadedImages st), activeStep := 1, xmlOutput := []\<rparr>"

subsection \<open>The batch run\<close>

text \<open>
  What \<^verbatim>\<open>fetch("/api/process-image", ...)\<close> and the reading of the body yield for one
  request: the promise rejects with an \<^verbatim>\<open>Error\<close> carrying a message (a network failure,
  a body that is not JSON), or the response is not ok and its JSON body has the optional
  field \<^verbatim>\<open>message\<close>, or the response is ok and its body holds \<^verbatim>\<open>rawText\<close> and
  \<^verbatim>\<open>xml\<close>. Every value thrown on these paths is an \<^verbatim>\<open>Error\<close>, so the
  \<^verbatim>\<open>"Error"\<close> fallback of line 222 is never taken.
\<close>

datatype fetch_result =
  Rejected string
| NotOk "string option"
| Ok string string

datatype call_outcome = Thrown string | Data string string

text \<open>
  Lines 198-208: \<^verbatim>\<open>throw new Error(errorData.message || "Server processing failed")\<close> when
  the response is not ok; an absent or empty message is falsy.
\<close>

definition callApi :: "fetch_result \<Rightarrow> call_outcome" where
  "callApi r =
     (case r of
        Rejected msg \<Rightarrow> Thrown msg
      | NotOk m \<Rightarrow>
          Thrown (case m of
                    None \<Rightarrow> ''Server processing failed''
                  | Some s \<Rightarrow> if s \<noteq> [] then s else ''Server processing failed'')
      | Ok raw xml \<Rightarrow> Data raw xml)"

definition setUploadedImages ::
  "(UploadedImage list \<Rightarrow> UploadedImage list) \<Rightarrow> home_state \<Rightarrow> home_state" where
  "setUploadedImages f st = st\<lparr>uploadedImages := f (uploadedImages st)\<rparr>"

text \<open>The three updaters of the run, each applied to every element by \<^verbatim>\<open>prev.map\<close>.\<close>

definition markProcessing :: "string \<Rightarrow> UploadedImage \<Rightarrow> UploadedImage" where
  "markProcessing i img =
     (if image_id img = i then img\<lparr>status := Processing, progress := 30\<rparr> else img)"

definition markComplete :: "string \<Rightarrow> string \<Rightarrow> UploadedImage \<Rightarrow> UploadedImage" where
  "markComplete i raw img =
     (if image_id img = i then img\<lparr>status := Complete, progress := 100, rawText := raw\<rparr>
      else img)"

definition markError :: "string \<Rightarrow> string \<Rightarrow> UploadedImage \<Rightarrow> UploadedImage" where
  "markError i errorMessage img =
     (if image_id img = i then img\<lparr>status := Error, error := Some errorMessage\<rparr> else img)"

text \<open>Line 218: \<^verbatim>\<open>prev ? prev + "\n" + data.xml : data.xml\<close>.\<close>

definition appendXml :: "string \<Rightarrow> string \<Rightarrow> string" where
  "appendXml xml prev = (if prev \<noteq> [] then prev @ [CHR 0x0A] @ xml else xml)"

text \<open>
  The \<^verbatim>\<open>for\<close> loop of lines 187-220 over \<^verbatim>\<open>pendingImages\<close>, with the local
  \<^verbatim>\<open>successCount\<close>. \<open>api k f\<close> is what the \<open>k\<close>-th request of the page (counted from 0)
  yields when it carries the file \<open>f\<close>. The first component of the result is the message of
  the error that left the loop, if one did.
\<close>

fun for_loop ::
  "(nat \<Rightarrow> jsfile \<Rightarrow> fetch_result) \<Rightarrow> UploadedImage list \<Rightarrow> home_state \<Rightarrow> nat \<Rightarrow>
   string option \<times> home_state \<times> nat" where
  "for_loop api [] st successCount = (None, st, successCount)"
| "for_loop api (item # rest) st successCount =
     (let st1 = setUploadedImages (map (markProcessing (image_id item))) st;
          st2 = st1\<lparr>requests := requests st1 @ [image_file item]\<rparr>
      in case callApi (api (length (requests st1)) (image_file item)) of
           Thrown msg \<Rightarrow> (Some msg, st2, successCount)
         | Data raw xml \<Rightarrow>
             for_loop api rest
               ((setUploadedImages (map (markComplete (image_id item) raw)) st2)
                  \<lparr>xmlOutput := appendXml xml (xmlOutput st2)\<rparr>)
               (successCount + 1))"

text \<open>
  \<^verbatim>\<open>processImages\<close> (lines 159-253) up to the end of its \<^verbatim>\<open>finally\<close> block. The
  progress interval and the stage timers are cosmetic and cleared in \<^verbatim>\<open>finally\<close>; they are
  left out. The result is the state and the value of \<^verbatim>\<open>successCount\<close>.
\<close>

definition pendingImages :: "home_state \<Rightarrow> UploadedImage list" where
  "pendingImages st =
     filter (\<lambda>img. status img = Pending \<or> status img = Error) (uploadedImages st)"

definition processImages :: "(nat \<Rightarrow> jsfile \<Rightarrow> fetch_result) \<Rightarrow> home_state \<Rightarrow> home_state \<times> nat" where
  "processImages api st =
     (case pendingImages st of
        [] \<Rightarrow> (st, 0)
      | first # others \<Rightarrow>
          (let st0 = st\<lparr>isProcessing := True, activeStep := 2,
                        processingStage := StageUploading, progressValue := 10\<rparr>
           in case for_loop api (first # others) st0 0 of
                (thrown, st1, successCount) \<Rightarrow>
                  (let st2 =
                     (case thrown of
                        None \<Rightarrow> st1
                      | Some errorMessage \<Rightarrow>
                          (setUploadedImages (map (markError (image_id first) errorMessage)) st1)
                            \<lparr>toasts := toasts st1 @
                               [\<lparr>title = ''Processing Failed'', description = errorMessage,
                                 destructive = True\<rparr>]\<rparr>)
                   in (st2\<lparr>isProcessing := False, processingStage := StageComplete,
                           progressValue := 100\<rparr>,
                       successCount))))"

text \<open>
  The callback of lines 244-250, which \<^verbatim>\<open>finally\<close> schedules 800 ms later when
  \<^verbatim>\<open>successCount > 0\<close>, and the run with that callback fired.
\<close>

definition successTimeout :: "nat \<Rightarrow> home_state \<Rightarrow> home_state" where
  "successTimeout successCount st =
     st\<lparr>activeStep := 3,
        toasts := toasts st @
          [\<lparr>title = ''Extraction Successful'',
            description = ''Successfully processed '' @ digits successCount @ '' document(s).'',
            destructive = False\<rparr>]\<rparr>"

definition processImages_settled :: "(nat \<Rightarrow> jsfile \<Rightarrow> fetch_result) \<Rightarrow> home_state \<Rightarrow> home_state" where
  "processImages_settled api st =
     (case processImages api st of
        (st', successCount) \<Rightarrow> if successCount > 0 then successTimeout successCount st' else st')"

subsection \<open>The XML to CSV converter\<close>

text \<open>
  The part of the DOM that \<^verbatim>\<open>convertXmlToCsv\<close> (lines 46-97) reads: elements with a tag
  name and children, and text nodes. Attributes, comments and processing instructions
  contribute neither to \<^verbatim>\<open>textContent\<close> nor to the selectors used and are left out.
\<close>

datatype node = Element string "node list" | Text string

fun textContent :: "node \<Rightarrow> string" where
  "textContent (Text s) = s"
| "textContent (Element t cs) = concat (map textContent cs)"

text \<open>
  The elements of a tree in document order, each with the tag names of its ancestors,
  nearest first, starting from the ancestors \<open>anc\<close> of the tree itself.
\<close>

fun elements :: "string list \<Rightarrow> node \<Rightarrow> (string list \<times> node) list" where
  "elements anc (Text s) = []"
| "elements anc (Element t cs) = (anc, Element t cs) # concat (map (elements (t # anc)) cs)"

fun tagName :: "node \<Rightarrow> string" where
  "tagName (Element t cs) = t"
| "tagName (Text s) = []"

fun childNodes :: "node \<Rightarrow> node list" where
  "childNodes (Element t cs) = cs"
| "childNodes (Text s) = []"

text \<open>\<^verbatim>\<open>xmlDoc.getElementsByTagName(name)\<close> on the document whose root element is given.\<close>

definition getElementsByTagName :: "string \<Rightarrow> node \<Rightarrow> (string list \<times> node) list" where
  "getElementsByTagName t root = filter (\<lambda>e. tagName (snd e) = t) (elements [] root)"

text \<open>
  \<^verbatim>\<open>doc.querySelector("A > B > C")\<close>: the first descendant of \<open>doc\<close> in document order
  whose tag is \<open>C\<close>, whose parent's tag is \<open>B\<close> and whose grandparent's tag is \<open>A\<close>. The
  selector is given as the list of its type selectors, \<open>[A, B, C]\<close>.
\<close>

definition matchesSelector :: "string list \<Rightarrow> string list \<times> node \<Rightarrow> bool" where
  "matchesSelector sel e = prefix (rev sel) (tagName (snd e) # fst e)"

definition querySelector :: "string list \<Rightarrow> string list \<times> node \<Rightarrow> (string list \<times> node) option" where
  "querySelector sel doc =
     find (matchesSelector sel)
       (concat (map (elements (tagName (snd doc) # fst doc)) (childNodes (snd doc))))"

text \<open>
  \<^verbatim>\<open>.replace(/MISSING|UNREADABLE/g, "")\<close>: one scan from left to right; at each position the
  alternatives are tried in order, a match is dropped and the scan goes on behind it.
\<close>

fun removeSentinels :: "string \<Rightarrow> string" where
  "removeSentinels [] = []"
| "removeSentinels (c # cs) =
     (if prefix ''MISSING'' (c # cs) then removeSentinels (drop 7 (c # cs))
      else if prefix ''UNREADABLE'' (c # cs) then removeSentinels (drop 10 (c # cs))
      else c # removeSentinels cs)"

text \<open>
  \<^verbatim>\<open>.trim()\<close>: the white space and line terminator code units below 256 are tab, line
  feed, vertical tab, form feed, carriage return, space and no-break space.
\<close>

definition isWhiteSpace :: "char \<Rightarrow> bool" where
  "isWhiteSpace c =
     (c = CHR 0x09 \<or> c = CHR 0x0A \<or> c = CHR 0x0B \<or> c = CHR 0x0C \<or> c = CHR 0x0D \<or>
      c = CHR 0x20 \<or> c = CHR 0xA0)"

definition trim :: "string \<Rightarrow> string" where
  "trim s = rev (dropWhile isWhiteSpace (rev (dropWhile isWhiteSpace s)))"

text \<open>
  \<^verbatim>\<open>s.replace(pattern, replacement)\<close> with a string pattern: only the first occurrence is
  replaced. The replacement used here holds no \<^verbatim>\<open>$\<close>.
\<close>

fun replaceFirst :: "string \<Rightarrow> string \<Rightarrow> string \<Rightarrow> string" where
  "replaceFirst pat rep [] = (if pat = [] then rep else [])"
| "replaceFirst pat rep (c # cs) =
     (if prefix pat (c # cs) then rep @ drop (length pat) (c # cs)
      else c # replaceFirst pat rep cs)"

text \<open>Lines 63-66.\<close>

definition getText :: "string list \<Rightarrow> string list \<times> node \<Rightarrow> string" where
  "getText selector doc =
     (case querySelector selector doc of
        None \<Rightarrow> []
      | Some el \<Rightarrow> trim (removeSentinels (textContent (snd el))))"

text \<open>The array of lines 68-88, before the fields are quoted.\<close>

definition rowFields :: "string list \<times> node \<Rightarrow> string list" where
  "rowFields doc =
     [trim (replaceFirst ''Order ID:'' [] (getText [''Notes''] doc)),
      getText [''Patient'', ''Name''] doc,
      getText [''Patient'', ''DOB''] doc,
      getText [''Patient'', ''Gender''] doc,
      getText [''Doctor'', ''Name''] doc,
      getText [''Doctor'', ''LicenseNumber''] doc,
      getText [''Doctor'', ''Clinic''] doc,
      getText [''Prescription'', ''Medicine'', ''Name''] doc,
      getText [''Prescription'', ''Medicine'', ''Dosage''] doc,
      getText [''Prescription'', ''Medicine'', ''Frequency''] doc,
      getText [''Prescription'', ''Medicine'', ''Duration''] doc,
      getText [''Vitals'', ''Height''] doc,
      getText [''Vitals'', ''Weight''] doc,
      getText [''Vitals'', ''BloodType''] doc,
      getText [''Vitals'', ''BloodPressure''] doc]"

text \<open>Line 89: \<^verbatim>\<open>`"${field.replace(/"/g, '""')}"`\<close>; the double quote is the character 0x22.\<close>

definition quoteField :: "string \<Rightarrow> string" where
  "quoteField field =
     [CHR 0x22] @ concat (map (\<lambda>c. if c = CHR 0x22 then [CHR 0x22, CHR 0x22] else [c]) field) @
     [CHR 0x22]"

text \<open>\<^verbatim>\<open>Array.prototype.join\<close>.\<close>

fun join :: "string \<Rightarrow> string list \<Rightarrow> string" where
  "join sep [] = []"
| "join sep [x] = x"
| "join sep (x # y # ys) = x @ sep @ join sep (y # ys)"

definition headers :: "string list" where
  "headers =
     [''Order ID'',
      ''Patient Name'', ''DOB'', ''Gender'',
      ''Doctor Name'', ''License'', ''Clinic'',
      ''Medicine'', ''Dosage'', ''Frequency'', ''Duration'',
      ''Height'', ''Weight'', ''Blood Type'', ''BP'']"

text \<open>
  \<^verbatim>\<open>convertXmlToCsv\<close>. \<open>parseFromString w\<close> is what
  \<^verbatim>\<open>new DOMParser().parseFromString(w, "text/xml")\<close> does: it returns the root element of a
  document (\<open>Inr\<close>) or throws (\<open>Inl\<close>). Everything else in the \<^verbatim>\<open>try\<close> block is a total
  operation on strings and nodes, so the \<^verbatim>\<open>catch\<close> block runs exactly when the parser
  throws.
\<close>

definition convertXmlToCsv :: "(string \<Rightarrow> string + node) \<Rightarrow> string \<Rightarrow> string" where
  "convertXmlToCsv parseFromString xmlString =
     (case parseFromString (''<Root>'' @ xmlString @ ''</Root>'') of
        Inl e \<Rightarrow> []
      | Inr xmlDoc \<Rightarrow>
          (let docs = getElementsByTagName ''MedicalDocument'' xmlDoc;
               rows = map (\<lambda>doc. join '','' (map quoteField (rowFields doc))) docs
           in join [CHR 0x0A] (join '','' headers # rows)))"

subsection \<open>Auxiliary notions for the batch run\<close>

text \<open>
  The data of the requests that succeed before the first one that throws, when the
  requests for the given records are numbered from \<open>k\<close>. It is used to state what the loop
  computes; the loop itself does not use it.
\<close>

fun successes ::
  "(nat \<Rightarrow> jsfile \<Rightarrow> fetch_result) \<Rightarrow> nat \<Rightarrow> UploadedImage list \<Rightarrow> (string \<times> string) list" where
  "successes api k [] = []"
| "successes api k (item # rest) =
     (case callApi (api k (image_file item)) of
        Thrown msg \<Rightarrow> []
      | Data raw xml \<Rightarrow> (raw, xml) # successes api (Suc k) rest)"

text \<open>The combined output after appending the given fragments one after the other.\<close>

definition appendAll :: "string \<Rightarrow> string list \<Rightarrow> string" where
  "appendAll out xmls = foldl (\<lambda>acc xml. appendXml xml acc) out xmls"

text \<open>
  One iteration of the loop passes through two states: the record marked as processing and
  the request sent (lines 188-201), and, when the request succeeds, the record marked as
  complete and the fragment appended (lines 210-218). The state in which the loop starts
  is the one lines 166-169 set up.
\<close>

definition attempt :: "UploadedImage \<Rightarrow> home_state \<Rightarrow> home_state" where
  "attempt item st =
     (setUploadedImages (map (markProcessing (image_id item))) st)
       \<lparr>requests := requests st @ [image_file item]\<rparr>"

definition succeed :: "UploadedImage \<Rightarrow> string \<Rightarrow> string \<Rightarrow> home_state \<Rightarrow> home_state" where
  "succeed item raw xml st =
     (setUploadedImages (map (markComplete (image_id item) raw)) st)
       \<lparr>xmlOutput := appendXml xml (xmlOutput st)\<rparr>"

definition run_start :: "home_state \<Rightarrow> home_state" where
  "run_start st =
     st\<lparr>isProcessing := True, activeStep := 2, processingStage := StageUploading,
        progressValue := 10\<rparr>"

subsection \<open>Example data\<close>

text \<open>Concrete records and states on which the theorems below are instantiated.\<close>

definition example_image :: "string \<Rightarrow> Status \<Rightarrow> UploadedImage" where
  "example_image i s =
     \<lparr>image_id = i, image_file = \<lparr>name = i, payload = []\<rparr>, preview = ''blob:'' @ i,
      status = s, progress = 0, rawText = [], parsedData = None, error = None\<rparr>"

definition example_state :: "UploadedImage list \<Rightarrow> string \<Rightarrow> home_state" where
  "example_state imgs out = initial_state\<lparr>uploadedImages := imgs, xmlOutput := out\<rparr>"

definition retry_example :: home_state where
  "retry_example =
     (example_state
       [(example_image ''a'' Error)\<lparr>progress := 30, error := Some ''boom''\<rparr>,
        (example_image ''b'' Complete)\<lparr>progress := 100, rawText := ''raw b''\<rparr>]
       ''<MedicalDocument/>'')
     \<lparr>activeStep := 3\<rparr>"

definition remove_example :: home_state where
  "remove_example =
     example_state
       [(example_image ''a'' Complete)\<lparr>progress := 100, rawText := ''raw a''\<rparr>,
        example_image ''b'' Pending]
       ''<MedicalDocument/>''"

definition example_url :: "nat \<Rightarrow> jsfile \<Rightarrow> string" where
  "example_url k f = ''blob:'' @ name f"

definition scan_png :: jsfile where
  "scan_png = \<lparr>name = ''scan.png'', payload = ''png''\<rparr>"

definition first_add :: home_state where
  "first_add = handleFilesSelected (\<lambda>k. 1700000000000) example_url [scan_png] initial_state"

definition three_pending :: home_state where
  "three_pending =
     example_state
       [example_image ''a'' Pending, example_image ''b'' Pending, example_image ''c'' Pending] []"

definition one_pending :: home_state where
  "one_pending = example_state [example_image ''a'' Pending] []"

definition example_api :: "nat \<Rightarrow> jsfile \<Rightarrow> fetch_result" where
  "example_api k f =
     (if k = 0 then Ok ''raw a'' ''<A/>''
      else if k = 1 then Ok ''raw b'' ''<B/>''
      else NotOk (Some ''bad scan''))"

definition failing_second_api :: "nat \<Rightarrow> jsfile \<Rightarrow> fetch_result" where
  "failing_second_api k f =
     (if k = 0 then Ok ''raw a'' ''<A/>'' else Rejected ''Failed to fetch'')"


text \<open>
  A record made from \<^verbatim>\<open>scan_png\<close> at the clock value of \<^verbatim>\<open>first_add\<close>; the batch after
  two calls of \<^verbatim>\<open>handleFilesSelected\<close> that read that clock value and receive that file;
  the page after a run on this batch in which both requests succeed; a server no request
  reaches; and a batch in which only some records are eligible.
\<close>

definition scan_image :: "Status \<Rightarrow> nat \<Rightarrow> string \<Rightarrow> string option \<Rightarrow> UploadedImage" where
  "scan_image s p raw e =
     \<lparr>image_id = ''1700000000000-0-scan.png'', image_file = scan_png, preview = ''blob:scan.png'',
      status = s, progress = p, rawText = raw, parsedData = None, error = e\<rparr>"

definition same_id_pending :: home_state where
  "same_id_pending =
     handleFilesSelected (\<lambda>k. 1700000000000) example_url [scan_png] first_add"

definition same_id_processed :: home_state where
  "same_id_processed = fst (processImages example_api same_id_pending)"

definition failing_first_api :: "nat \<Rightarrow> jsfile \<Rightarrow> fetch_result" where
  "failing_first_api k f = Rejected ''Failed to fetch''"

definition mixed_batch :: home_state where
  "mixed_batch =
     example_state
       [(example_image ''z'' Complete)\<lparr>progress := 100, rawText := ''raw z''\<rparr>,
        (example_image ''a'' Error)\<lparr>progress := 30, error := Some ''old''\<rparr>,
        example_image ''b'' Pending, example_image ''c'' Pending]
       ''<Z/>''"

text \<open>
  A fragment as the extraction service returns it, the element tree the browser's parser
  builds from it, two further documents, and the document the parser returns for input
  that is not well-formed. \<open>example_parser\<close> maps the wrapped fragment to its tree and
  anything else, in particular the malformed input used below, to the error document.
\<close>

definition dosage_markup :: string where
  "dosage_markup =
     ''<MedicalDocument><Prescription><Medicine><Name>Amoxicillin</Name>'' @
     ''<Dosage>Dosage: 500mg MISSING</Dosage></Medicine></Prescription>'' @
     ''<Notes>Order ID: RX-1001</Notes></MedicalDocument>''"

definition dosage_document :: node where
  "dosage_document =
     Element ''MedicalDocument''
       [Element ''Prescription''
          [Element ''Medicine''
             [Element ''Name'' [Text ''Amoxicillin''],
              Element ''Dosage'' [Text ''Dosage: 500mg MISSING'']]],
        Element ''Notes'' [Text ''Order ID: RX-1001'']]"

definition refill_document :: node where
  "refill_document =
     Element ''MedicalDocument'' [Element ''Notes'' [Text ''Refill. Order ID: RX-1001'']]"

definition plain_notes_document :: node where
  "plain_notes_document =
     Element ''MedicalDocument'' [Element ''Notes'' [Text '' Take with food '']]"

definition parsererror_document :: node where
  "parsererror_document =
     Element ''parsererror'' [Text ''XML Parsing Error: no element found'']"

definition example_parser :: "string \<Rightarrow> string + node" where
  "example_parser w =
     (if w = ''<Root>'' @ dosage_markup @ ''</Root>'' then Inr (Element ''Root'' [dosage_document])
      else Inr parsererror_document)"

section \<open>The record store\<close>

subsection \<open>Retrying failed records\<close>

text \<open>
  Claim C6. After \<^verbatim>\<open>handleRetry\<close> the batch has the same length; at every position a
  record that had status \<open>Error\<close> is the same record with status \<open>Pending\<close>, progress 0 and
  no error message, and a record with any other status is unchanged; the workflow step is
  back at its initial value 1 and the combined output is the empty string.
\<close>

theorem handleRetry_resets_failed:
  "length (uploadedImages (handleRetry st)) = length (uploadedImages st) \<and>
   (\<forall>k < length (uploadedImages st).
      (status (uploadedImages st ! k) = Error \<longrightarrow>
         uploadedImages (handleRetry st) ! k =
           (uploadedImages st ! k)\<lparr>status := Pending, error := None, progress := 0\<rparr>) \<and>
      (status (uploadedImages st ! k) \<noteq> Error \<longrightarrow>
         uploadedImages (handleRetry st) ! k = uploadedImages st ! k)) \<and>
   activeStep (handleRetry st) = activeStep initial_state \<and>
   activeStep (handleRetry st) = 1 \<and>
   xmlOutput (handleRetry st) = []"
  by (simp add: handleRetry_def retryImage_def initial_state_def)

theorem handleRetry_resets_failed_witness:
  "status (uploadedImages retry_example ! 0) = Error \<and>
   uploadedImages (handleRetry retry_example) ! 0 =
     (uploadedImages retry_example ! 0)\<lparr>status := Pending, error := None, progress := 0\<rparr> \<and>
   status (uploadedImages (handleRetry retry_example) ! 0) = Pending \<and>
   status (uploadedImages retry_example ! 1) \<noteq> Error \<and>
   uploadedImages (handleRetry retry_example) ! 1 = uploadedImages retry_example ! 1 \<and>
   xmlOutput retry_example \<noteq> [] \<and>
   xmlOutput (handleRetry retry_example) = []"
proof -
  have len: "length (uploadedImages retry_example) = 2"
    by (simp add: retry_example_def example_state_def)
  have s0: "status (uploadedImages retry_example ! 0) = Error"
    by (simp add: retry_example_def example_state_def example_image_def)
  have s1: "status (uploadedImages retry_example ! 1) \<noteq> Error"
    by (simp add: retry_example_def example_state_def example_image_def)
  have out: "xmlOutput retry_example \<noteq> []"
    by (simp add: retry_example_def example_state_def)
  note t = handleRetry_resets_failed [of retry_example]
  from t len s0 have r0:
    "uploadedImages (handleRetry retry_example) ! 0 =
       (uploadedImages retry_example ! 0)\<lparr>status := Pending, error := None, progress := 0\<rparr>"
    by simp
  from t len s1 have r1:
    "uploadedImages (handleRetry retry_example) ! 1 = uploadedImages retry_example ! 1"
    by simp
  from t have r2: "xmlOutput (handleRetry retry_example) = []"
    by simp
  from r0 have "status (uploadedImages (handleRetry retry_example) ! 0) = Pending"
    by simp
  with s0 s1 r0 r1 r2 out show ?thesis
    by simp
qed

subsection \<open>Identifiers\<close>

text \<open>Decimal numerals are non-empty, free of the separator and determine their number.\<close>

lemma digit_char_inj: "a < 10 \<Longrightarrow> b < 10 \<Longrightarrow> digit_char a = digit_char b \<Longrightarrow> a = b"
proof -
  assume a: "a < 10" and b: "b < 10" and e: "digit_char a = digit_char b"
  from e have "(of_char (char_of (48 + a) :: char) :: nat) = of_char (char_of (48 + b) :: char)"
    by (simp add: digit_char_def)
  with a b show "a = b" by simp
qed

lemma digit_char_not_dash: "d < 10 \<Longrightarrow> digit_char d \<noteq> CHR ''-''"
proof
  assume d: "d < 10" and e: "digit_char d = CHR ''-''"
  from e have "(of_char (char_of (48 + d) :: char) :: nat) = of_char (CHR ''-'')"
    by (simp add: digit_char_def)
  with d show False by simp
qed

lemma dash_not_digit_char: "d < 10 \<Longrightarrow> CHR ''-'' \<noteq> digit_char d"
  using digit_char_not_dash [of d] by auto

lemma digits_not_Nil: "digits n \<noteq> []"
  by (subst digits.simps) simp

lemma digits_no_dash: "CHR ''-'' \<notin> set (digits n)"
proof (induction n rule: digits.induct)
  case (1 n)
  show ?case
  proof (cases "n < 10")
    case True
    then show ?thesis by (subst digits.simps) (simp add: dash_not_digit_char)
  next
    case False
    with 1 show ?thesis by (subst digits.simps) (simp add: dash_not_digit_char)
  qed
qed

lemma digits_length_ge2: "\<not> n < 10 \<Longrightarrow> 2 \<le> length (digits n)"
proof -
  assume "\<not> n < 10"
  then have "digits n = digits (n div 10) @ [digit_char (n mod 10)]"
    by (subst digits.simps) simp
  moreover have "1 \<le> length (digits (n div 10))"
    using digits_not_Nil [of "n div 10"] by (cases "digits (n div 10)") simp_all
  ultimately show ?thesis by simp
qed

lemma digits_inj: "digits n = digits m \<Longrightarrow> n = m"
proof (induction n arbitrary: m rule: digits.induct)
  case (1 n)
  show ?case
  proof (cases "n < 10")
    case n: True
    show ?thesis
    proof (cases "m < 10")
      case True
      with n 1(2) show ?thesis
        by (simp add: digits.simps [of n] digits.simps [of m] digit_char_inj)
    next
      case False
      from n have "length (digits n) = 1" by (simp add: digits.simps [of n])
      with digits_length_ge2 [OF False] 1(2) show ?thesis by simp
    qed
  next
    case n: False
    show ?thesis
    proof (cases "m < 10")
      case True
      then have "length (digits m) = 1" by (simp add: digits.simps [of m])
      with digits_length_ge2 [OF n] 1(2) show ?thesis by simp
    next
      case False
      from n False 1(2) have e: "digits (n div 10) = digits (m div 10)"
        and c: "digit_char (n mod 10) = digit_char (m mod 10)"
        by (simp_all add: digits.simps [of n] digits.simps [of m])
      from 1(1) [OF n e] have "n div 10 = m div 10" .
      moreover from c have "n mod 10 = m mod 10" by (simp add: digit_char_inj)
      ultimately show ?thesis by (metis div_mult_mod_eq)
    qed
  qed
qed

lemma split_at_dash:
  "CHR ''-'' \<notin> set a \<Longrightarrow> CHR ''-'' \<notin> set b \<Longrightarrow> a @ CHR ''-'' # r = b @ CHR ''-'' # s \<Longrightarrow> a = b \<and> r = s"
proof (induction a arbitrary: b)
  case Nil
  then show ?case by (cases b) auto
next
  case (Cons x a)
  then show ?case by (cases b) auto
qed



lemma digit_char_one: "digit_char (Suc 0) = CHR ''1''"
proof -
  have "digit_char (Suc 0) = char_of (49::nat)"
    by (simp add: digit_char_def)
  then show ?thesis by (simp add: char_of_eq_iff)
qed

lemma digit_char_eval:
  "digit_char 0 = CHR ''0''" "digit_char 2 = CHR ''2''"
  "digit_char 3 = CHR ''3''" "digit_char 4 = CHR ''4''" "digit_char 5 = CHR ''5''"
  "digit_char 6 = CHR ''6''" "digit_char 7 = CHR ''7''" "digit_char 8 = CHR ''8''"
  "digit_char 9 = CHR ''9''"
  by (simp_all add: digit_char_def char_of_eq_iff)


subsection \<open>Adding files\<close>

lemma newImage_id_index:
  assumes "image_id (newImage now url (k, f)) = image_id (newImage now url (k', f'))"
  shows "k = k'"
proof -
  from assms have
    "digits (now k) @ CHR ''-'' # (digits k @ CHR ''-'' # name f) =
     digits (now k') @ CHR ''-'' # (digits k' @ CHR ''-'' # name f')"
    by (simp add: newImage_def)
  then have "digits k @ CHR ''-'' # name f = digits k' @ CHR ''-'' # name f'"
    using split_at_dash [OF digits_no_dash digits_no_dash] by blast
  then have "digits k = digits k'"
    using split_at_dash [OF digits_no_dash digits_no_dash] by blast
  then show ?thesis by (rule digits_inj)
qed

lemma distinct_new_ids:
  "distinct (map image_id (map (newImage now url) (enumerate n files)))"
proof -
  have "inj_on (\<lambda>p. image_id (newImage now url p)) (set (enumerate n files))"
  proof (rule inj_onI)
    fix p q
    assume p: "p \<in> set (enumerate n files)" and q: "q \<in> set (enumerate n files)"
      and e: "image_id (newImage now url p) = image_id (newImage now url q)"
    obtain k f where pk: "p = (k, f)" by (cases p)
    obtain k' f' where qk: "q = (k', f')" by (cases q)
    from e pk qk have "k = k'" using newImage_id_index by blast
    moreover from p pk have "f = files ! (k - n)" by (simp add: in_set_enumerate_eq)
    moreover from q qk have "f' = files ! (k' - n)" by (simp add: in_set_enumerate_eq)
    ultimately show "p = q" using pk qk by simp
  qed
  then show ?thesis
    by (simp add: distinct_map comp_def)
qed

lemma newImage_fields:
  "status (newImage now url p) = Pending" "progress (newImage now url p) = 0"
  "rawText (newImage now url p) = []" "parsedData (newImage now url p) = None"
  "error (newImage now url p) = None" "image_file (newImage now url p) = snd p"
  by (simp_all add: newImage_def split: prod.split)

lemma uploaded_after_add:
  "uploadedImages (handleFilesSelected now url files st) =
     uploadedImages st @ map (newImage now url) (enumerate 0 files)"
  by (simp add: handleFilesSelected_def)

text \<open>
  Claim C7, as amended. \<^verbatim>\<open>handleFilesSelected\<close> with \<open>n\<close> files makes the batch \<open>n\<close>
  records longer; the old records stay in front, unchanged; the new records carry the files
  in the order supplied, each with status \<open>Pending\<close>, progress 0, empty raw text and no
  parsed data or error; the ids of the new records are pairwise distinct; and all ids of the
  batch are distinct afterwards when they were distinct before and no new id occurs among
  the old ones.
\<close>

theorem handleFilesSelected_appends_pending:
  "length (uploadedImages (handleFilesSelected now url files st)) =
     length (uploadedImages st) + length files \<and>
   take (length (uploadedImages st)) (uploadedImages (handleFilesSelected now url files st)) =
     uploadedImages st \<and>
   map image_file
     (drop (length (uploadedImages st)) (uploadedImages (handleFilesSelected now url files st))) =
     files \<and>
   (\<forall>r \<in> set (drop (length (uploadedImages st))
                 (uploadedImages (handleFilesSelected now url files st))).
      status r = Pending \<and> progress r = 0 \<and> rawText r = [] \<and> parsedData r = None \<and>
      error r = None) \<and>
   distinct (map image_id
     (drop (length (uploadedImages st)) (uploadedImages (handleFilesSelected now url files st)))) \<and>
   (distinct (map image_id (uploadedImages st)) \<and>
    image_id ` set (drop (length (uploadedImages st))
                 (uploadedImages (handleFilesSelected now url files st))) \<inter>
      image_id ` set (uploadedImages st) = {} \<longrightarrow>
    distinct (map image_id (uploadedImages (handleFilesSelected now url files st))))"
proof -
  have files: "map image_file (map (newImage now url) (enumerate 0 files)) = files"
  proof -
    have "map image_file (map (newImage now url) (enumerate 0 files)) =
          map snd (enumerate 0 files)"
      by (simp add: newImage_fields comp_def)
    then show ?thesis by simp
  qed
  have fields: "\<forall>r \<in> set (map (newImage now url) (enumerate 0 files)).
      status r = Pending \<and> progress r = 0 \<and> rawText r = [] \<and> parsedData r = None \<and>
      error r = None"
    by (auto simp: newImage_fields)
  show ?thesis
    unfolding uploaded_after_add
    using files fields distinct_new_ids [of now url 0 files]
    by (auto simp: Int_commute)
qed

lemma first_add_images:
  "uploadedImages first_add =
     [\<lparr>image_id = ''1700000000000-0-scan.png'', image_file = scan_png, preview = ''blob:scan.png'',
       status = Pending, progress = 0, rawText = [], parsedData = None, error = None\<rparr>]"
  by (simp add: first_add_def handleFilesSelected_def newImage_def initial_state_def
      example_url_def scan_png_def digits.simps digit_char_eval digit_char_one)

text \<open>
  Claim C7 as stated fails: two calls that read the same clock value and receive a file of
  the same name at the same index give the same id twice.
\<close>

theorem handleFilesSelected_same_clock_duplicates:
  "map image_id (uploadedImages (handleFilesSelected (\<lambda>k. 1700000000000) example_url [scan_png] first_add)) =
     [''1700000000000-0-scan.png'', ''1700000000000-0-scan.png''] \<and>
   \<not> distinct (map image_id
     (uploadedImages (handleFilesSelected (\<lambda>k. 1700000000000) example_url [scan_png] first_add)))"
  by (simp add: uploaded_after_add first_add_images newImage_def
      example_url_def scan_png_def digits.simps digit_char_eval digit_char_one)

theorem handleFilesSelected_appends_pending_witness:
  "distinct (map image_id (uploadedImages first_add)) \<and>
   length (uploadedImages (handleFilesSelected (\<lambda>k. 1700000000001) example_url [scan_png, scan_png] first_add)) = 3 \<and>
   map image_id (uploadedImages (handleFilesSelected (\<lambda>k. 1700000000001) example_url [scan_png, scan_png] first_add)) =
     [''1700000000000-0-scan.png'', ''1700000000001-0-scan.png'', ''1700000000001-1-scan.png''] \<and>
   status (uploadedImages (handleFilesSelected (\<lambda>k. 1700000000001) example_url [scan_png, scan_png] first_add) ! 2) = Pending \<and>
   distinct (map image_id
     (uploadedImages (handleFilesSelected (\<lambda>k. 1700000000001) example_url [scan_png, scan_png] first_add)))"
proof -
  let ?after = "uploadedImages (handleFilesSelected (\<lambda>k. 1700000000001) example_url [scan_png, scan_png] first_add)"
  note t = handleFilesSelected_appends_pending
    [of "\<lambda>k. 1700000000001" example_url "[scan_png, scan_png]" first_add]
  have ids: "map image_id ?after = [''1700000000000-0-scan.png'', ''1700000000001-0-scan.png'', ''1700000000001-1-scan.png'']"
    by (simp add: uploaded_after_add first_add_images newImage_def
        example_url_def scan_png_def digits.simps digit_char_eval digit_char_one)
  have old: "distinct (map image_id (uploadedImages first_add))"
    by (simp add: first_add_images)
  have disj: "image_id ` set (drop (length (uploadedImages first_add)) ?after) \<inter>
      image_id ` set (uploadedImages first_add) = {}"
    by (simp add: uploaded_after_add first_add_images newImage_def
        example_url_def scan_png_def digits.simps digit_char_eval digit_char_one)
  from t have imp:
    "distinct (map image_id (uploadedImages first_add)) \<and>
     image_id ` set (drop (length (uploadedImages first_add)) ?after) \<inter>
       image_id ` set (uploadedImages first_add) = {} \<longrightarrow>
     distinct (map image_id ?after)"
    by (elim conjE) assumption
  from old disj have d: "distinct (map image_id ?after)"
    by (rule mp [OF imp conjI])
  from t have "length ?after = length (uploadedImages first_add) + length [scan_png, scan_png]"
    by (elim conjE) assumption
  then have len: "length ?after = 3"
    by (simp add: first_add_images)
  from t have fields:
    "\<forall>r \<in> set (drop (length (uploadedImages first_add)) ?after).
       status r = Pending \<and> progress r = 0 \<and> rawText r = [] \<and> parsedData r = None \<and>
       error r = None"
    by (elim conjE) assumption
  have "?after ! 2 \<in> set (drop (length (uploadedImages first_add)) ?after)"
    by (simp add: uploaded_after_add first_add_images)
  with fields have "status (?after ! 2) = Pending"
    by (simp only:)
  with old len ids d show ?thesis
    by (intro conjI)
qed

subsection \<open>Two records with one id\<close>

text \<open>The example batch in which two records carry one id, before and after a run.\<close>

lemma first_add_eval:
  "uploadedImages first_add = [scan_image Pending 0 [] None]"
  "xmlOutput first_add = []"
  "requests first_add = []"
  "pendingImages first_add = [scan_image Pending 0 [] None]"
  by (simp_all add: first_add_images scan_image_def pendingImages_def)
     (simp_all add: first_add_def handleFilesSelected_def initial_state_def)

lemma new_scan_image:
  "newImage (\<lambda>k. 1700000000000) example_url (0, scan_png) = scan_image Pending 0 [] None"
  by (simp add: newImage_def example_url_def scan_png_def scan_image_def digits.simps
      digit_char_eval digit_char_one)

lemma same_id_pending_eval:
  "uploadedImages same_id_pending = [scan_image Pending 0 [] None, scan_image Pending 0 [] None]"
  "pendingImages same_id_pending = [scan_image Pending 0 [] None, scan_image Pending 0 [] None]"
  "xmlOutput same_id_pending = []"
  "requests same_id_pending = []"
proof -
  show u: "uploadedImages same_id_pending =
      [scan_image Pending 0 [] None, scan_image Pending 0 [] None]"
    by (simp add: same_id_pending_def uploaded_after_add new_scan_image first_add_eval)
  show "pendingImages same_id_pending =
      [scan_image Pending 0 [] None, scan_image Pending 0 [] None]"
    by (simp add: pendingImages_def u) (simp add: scan_image_def)
  show "xmlOutput same_id_pending = []"
    by (simp add: same_id_pending_def handleFilesSelected_def first_add_eval)
  show "requests same_id_pending = []"
    by (simp add: same_id_pending_def handleFilesSelected_def first_add_eval)
qed

lemma same_id_processed_eval:
  "uploadedImages same_id_processed =
     [scan_image Complete 100 ''raw b'' None, scan_image Complete 100 ''raw b'' None]"
  "xmlOutput same_id_processed = ''<A/>'' @ [CHR 0x0A] @ ''<B/>''"
  by (simp_all add: same_id_processed_def processImages_def same_id_pending_eval for_loop.simps
      Let_def setUploadedImages_def markProcessing_def markComplete_def callApi_def
      appendXml_def example_api_def scan_image_def)

subsection \<open>Removing a record\<close>

text \<open>
  Claim C10, as amended. \<^verbatim>\<open>handleRemoveImage\<close> removes every record that carries the
  given id: what remains of the batch is the list of the records with another id, each
  unchanged and in the same order. In a batch of at least two records in which exactly one
  record carries the id, the combined output and the workflow step are left as they were
  and the batch is one record shorter; the contribution of a removed complete record thus
  stays in the combined output. More generally the output and the step are kept whenever
  some record of the batch carries another id. When every record of the batch carries the
  id, the batch becomes empty and the combined output is cleared.
\<close>

theorem handleRemoveImage_keeps_output:
  "uploadedImages (handleRemoveImage i st) =
     filter (\<lambda>img. image_id img \<noteq> i) (uploadedImages st) \<and>
   (2 \<le> length (uploadedImages st) \<and>
    length (filter (\<lambda>img. image_id img = i) (uploadedImages st)) = 1 \<longrightarrow>
      xmlOutput (handleRemoveImage i st) = xmlOutput st \<and>
      activeStep (handleRemoveImage i st) = activeStep st \<and>
      length (uploadedImages (handleRemoveImage i st)) = length (uploadedImages st) - 1) \<and>
   ((\<exists>img \<in> set (uploadedImages st). image_id img \<noteq> i) \<longrightarrow>
      xmlOutput (handleRemoveImage i st) = xmlOutput st \<and>
      activeStep (handleRemoveImage i st) = activeStep st) \<and>
   ((\<forall>img \<in> set (uploadedImages st). image_id img = i) \<longrightarrow>
      uploadedImages (handleRemoveImage i st) = [] \<and> xmlOutput (handleRemoveImage i st) = []) \<and>
   (\<forall>img \<in> set (uploadedImages st).
      image_id img \<noteq> i \<longrightarrow> img \<in> set (uploadedImages (handleRemoveImage i st)))"
proof -
  let ?rest = "filter (\<lambda>img. image_id img \<noteq> i) (uploadedImages st)"
  have r: "uploadedImages (handleRemoveImage i st) = ?rest"
    by (simp add: handleRemoveImage_def Let_def split: option.split)
  have keep: "xmlOutput (handleRemoveImage i st) = xmlOutput st \<and>
      activeStep (handleRemoveImage i st) = activeStep st" if "?rest \<noteq> []"
    using that by (simp add: handleRemoveImage_def Let_def split: option.split)
  have clear: "xmlOutput (handleRemoveImage i st) = []" if "?rest = []"
    using that by (simp add: handleRemoveImage_def Let_def split: option.split)
  have one: "2 \<le> length (uploadedImages st) \<and>
    length (filter (\<lambda>img. image_id img = i) (uploadedImages st)) = 1 \<longrightarrow>
      xmlOutput (handleRemoveImage i st) = xmlOutput st \<and>
      activeStep (handleRemoveImage i st) = activeStep st \<and>
      length (uploadedImages (handleRemoveImage i st)) = length (uploadedImages st) - 1"
  proof
    assume a: "2 \<le> length (uploadedImages st) \<and>
      length (filter (\<lambda>img. image_id img = i) (uploadedImages st)) = 1"
    have "length (filter (\<lambda>img. image_id img = i) (uploadedImages st)) + length ?rest =
        length (uploadedImages st)"
      by (rule sum_length_filter_compl)
    with a have len: "length ?rest = length (uploadedImages st) - 1"
      by simp
    with a have "length ?rest \<noteq> 0"
      by simp
    then have "?rest \<noteq> []"
      by simp
    from keep [OF this] len r show
      "xmlOutput (handleRemoveImage i st) = xmlOutput st \<and>
       activeStep (handleRemoveImage i st) = activeStep st \<and>
       length (uploadedImages (handleRemoveImage i st)) = length (uploadedImages st) - 1"
      by simp
  qed
  have some: "(\<exists>img \<in> set (uploadedImages st). image_id img \<noteq> i) \<longrightarrow>
      xmlOutput (handleRemoveImage i st) = xmlOutput st \<and>
      activeStep (handleRemoveImage i st) = activeStep st"
  proof
    assume "\<exists>img \<in> set (uploadedImages st). image_id img \<noteq> i"
    then have "?rest \<noteq> []"
      by (simp add: filter_empty_conv)
    then show "xmlOutput (handleRemoveImage i st) = xmlOutput st \<and>
      activeStep (handleRemoveImage i st) = activeStep st"
      by (rule keep)
  qed
  have none: "(\<forall>img \<in> set (uploadedImages st). image_id img = i) \<longrightarrow>
      uploadedImages (handleRemoveImage i st) = [] \<and> xmlOutput (handleRemoveImage i st) = []"
  proof
    assume "\<forall>img \<in> set (uploadedImages st). image_id img = i"
    then have e: "?rest = []"
      by (simp add: filter_empty_conv)
    with r clear [OF e] show
      "uploadedImages (handleRemoveImage i st) = [] \<and> xmlOutput (handleRemoveImage i st) = []"
      by simp
  qed
  have others: "\<forall>img \<in> set (uploadedImages st).
      image_id img \<noteq> i \<longrightarrow> img \<in> set (uploadedImages (handleRemoveImage i st))"
    by (simp add: r)
  from r one some none others show ?thesis
    by (intro conjI)
qed

text \<open>
  The theorem at a batch of two records with different ids, from which either record is
  removed, and at a batch of two records with one id.
\<close>

theorem handleRemoveImage_keeps_output_witness:
  "2 \<le> length (uploadedImages remove_example) \<and>
   length (filter (\<lambda>img. image_id img = ''a'') (uploadedImages remove_example)) = 1 \<and>
   status (uploadedImages remove_example ! 0) = Complete \<and>
   xmlOutput (handleRemoveImage ''a'' remove_example) = ''<MedicalDocument/>'' \<and>
   uploadedImages (handleRemoveImage ''a'' remove_example) = [example_image ''b'' Pending] \<and>
   example_image ''b'' Pending \<in> set (uploadedImages (handleRemoveImage ''a'' remove_example)) \<and>
   xmlOutput (handleRemoveImage ''b'' remove_example) = ''<MedicalDocument/>'' \<and>
   uploadedImages (handleRemoveImage ''1700000000000-0-scan.png'' same_id_processed) = [] \<and>
   xmlOutput (handleRemoveImage ''1700000000000-0-scan.png'' same_id_processed) = []"
proof -
  note t = handleRemoveImage_keeps_output [of "''a''" remove_example]
  note t2 = handleRemoveImage_keeps_output [of "''b''" remove_example]
  note t3 = handleRemoveImage_keeps_output [of "''1700000000000-0-scan.png''" same_id_processed]
  have imgs: "uploadedImages remove_example =
      [(example_image ''a'' Complete)\<lparr>progress := 100, rawText := ''raw a''\<rparr>,
       example_image ''b'' Pending]"
    by (simp add: remove_example_def example_state_def)
  have out: "xmlOutput remove_example = ''<MedicalDocument/>''"
    by (simp add: remove_example_def example_state_def)
  have two: "2 \<le> length (uploadedImages remove_example)"
    by (simp add: imgs)
  have one: "length (filter (\<lambda>img. image_id img = ''a'') (uploadedImages remove_example)) = 1"
    by (simp add: imgs example_image_def)
  have c: "status (uploadedImages remove_example ! 0) = Complete"
    by (simp add: imgs example_image_def)
  from t have "2 \<le> length (uploadedImages remove_example) \<and>
      length (filter (\<lambda>img. image_id img = ''a'') (uploadedImages remove_example)) = 1 \<longrightarrow>
      xmlOutput (handleRemoveImage ''a'' remove_example) = xmlOutput remove_example \<and>
      activeStep (handleRemoveImage ''a'' remove_example) = activeStep remove_example \<and>
      length (uploadedImages (handleRemoveImage ''a'' remove_example)) =
        length (uploadedImages remove_example) - 1"
    by (elim conjE) assumption
  with two one have k:
    "xmlOutput (handleRemoveImage ''a'' remove_example) = xmlOutput remove_example"
    by (simp only:)
  from t have "uploadedImages (handleRemoveImage ''a'' remove_example) =
      filter (\<lambda>img. image_id img \<noteq> ''a'') (uploadedImages remove_example)"
    by (elim conjE) assumption
  then have r: "uploadedImages (handleRemoveImage ''a'' remove_example) = [example_image ''b'' Pending]"
    by (simp add: imgs example_image_def)
  from t have others: "\<forall>img \<in> set (uploadedImages remove_example).
      image_id img \<noteq> ''a'' \<longrightarrow> img \<in> set (uploadedImages (handleRemoveImage ''a'' remove_example))"
    by (elim conjE) assumption
  have "example_image ''b'' Pending \<in> set (uploadedImages remove_example)"
    by (simp add: imgs)
  moreover have "image_id (example_image ''b'' Pending) \<noteq> ''a''"
    by (simp add: example_image_def)
  ultimately have m: "example_image ''b'' Pending \<in>
      set (uploadedImages (handleRemoveImage ''a'' remove_example))"
    using others by blast
  have ex: "\<exists>img \<in> set (uploadedImages remove_example). image_id img \<noteq> ''b''"
    by (simp add: imgs example_image_def)
  from t2 have "(\<exists>img \<in> set (uploadedImages remove_example). image_id img \<noteq> ''b'') \<longrightarrow>
      xmlOutput (handleRemoveImage ''b'' remove_example) = xmlOutput remove_example \<and>
      activeStep (handleRemoveImage ''b'' remove_example) = activeStep remove_example"
    by (elim conjE) assumption
  with ex have k2: "xmlOutput (handleRemoveImage ''b'' remove_example) = xmlOutput remove_example"
    by (simp only:)
  have all: "\<forall>img \<in> set (uploadedImages same_id_processed).
      image_id img = ''1700000000000-0-scan.png''"
    by (simp add: same_id_processed_eval scan_image_def)
  from t3 have "(\<forall>img \<in> set (uploadedImages same_id_processed).
        image_id img = ''1700000000000-0-scan.png'') \<longrightarrow>
      uploadedImages (handleRemoveImage ''1700000000000-0-scan.png'' same_id_processed) = [] \<and>
      xmlOutput (handleRemoveImage ''1700000000000-0-scan.png'' same_id_processed) = []"
    by (elim conjE) assumption
  with all have e:
    "uploadedImages (handleRemoveImage ''1700000000000-0-scan.png'' same_id_processed) = [] \<and>
     xmlOutput (handleRemoveImage ''1700000000000-0-scan.png'' same_id_processed) = []"
    by (simp only:)
  from two one c k r m k2 e out show ?thesis
    by (simp only:)
qed

text \<open>
  Claim C10 as stated fails, because ids are not unique. After a run on the batch of two
  records with one id in which both requests succeed, the batch holds two complete records
  and the combined output holds both fragments; removing the id removes both records and
  clears the combined output.
\<close>

theorem handleRemoveImage_shared_id_clears_output:
  "map image_id (uploadedImages same_id_processed) =
     [''1700000000000-0-scan.png'', ''1700000000000-0-scan.png''] \<and>
   map status (uploadedImages same_id_processed) = [Complete, Complete] \<and>
   xmlOutput same_id_processed = ''<A/>'' @ [CHR 0x0A] @ ''<B/>'' \<and>
   uploadedImages (handleRemoveImage ''1700000000000-0-scan.png'' same_id_processed) = [] \<and>
   xmlOutput (handleRemoveImage ''1700000000000-0-scan.png'' same_id_processed) = []"
  by (simp add: handleRemoveImage_def same_id_processed_eval scan_image_def Let_def)

section \<open>The batch run\<close>

subsection \<open>The loop\<close>

text \<open>The loop, one iteration at a time, in terms of the two states of an iteration.\<close>

lemma mark_ids [simp]:
  "image_id (markProcessing i img) = image_id img"
  "image_id (markComplete i raw img) = image_id img"
  "image_id (markError i msg img) = image_id img"
  by (simp_all add: markProcessing_def markComplete_def markError_def)

lemma mark_other:
  "image_id img \<noteq> i \<Longrightarrow> markProcessing i img = img"
  "image_id img \<noteq> i \<Longrightarrow> markComplete i raw img = img"
  "image_id img \<noteq> i \<Longrightarrow> markError i msg img = img"
  by (simp_all add: markProcessing_def markComplete_def markError_def)

lemma mark_same:
  "image_id img = i \<Longrightarrow>
     markComplete i raw (markProcessing i img) =
       img\<lparr>status := Complete, progress := 100, rawText := raw\<rparr>"
  "image_id img = i \<Longrightarrow> markProcessing i img = img\<lparr>status := Processing, progress := 30\<rparr>"
  by (simp_all add: markProcessing_def markComplete_def)

lemma for_loop_Cons:
  "for_loop api (item # rest) st sc =
     (case callApi (api (length (requests st)) (image_file item)) of
        Thrown msg \<Rightarrow> (Some msg, attempt item st, sc)
      | Data raw xml \<Rightarrow> for_loop api rest (succeed item raw xml (attempt item st)) (Suc sc))"
  by (simp add: Let_def attempt_def succeed_def setUploadedImages_def split: call_outcome.split)

lemma attempt_fields [simp]:
  "uploadedImages (attempt item st) = map (markProcessing (image_id item)) (uploadedImages st)"
  "requests (attempt item st) = requests st @ [image_file item]"
  "xmlOutput (attempt item st) = xmlOutput st"
  "toasts (attempt item st) = toasts st"
  "activeStep (attempt item st) = activeStep st"
  by (simp_all add: attempt_def setUploadedImages_def)

lemma succeed_fields [simp]:
  "uploadedImages (succeed item raw xml st) = map (markComplete (image_id item) raw) (uploadedImages st)"
  "requests (succeed item raw xml st) = requests st"
  "xmlOutput (succeed item raw xml st) = appendXml xml (xmlOutput st)"
  "toasts (succeed item raw xml st) = toasts st"
  "activeStep (succeed item raw xml st) = activeStep st"
  by (simp_all add: succeed_def setUploadedImages_def)

declare for_loop.simps(2) [simp del]

lemma for_loop_count:
  "snd (snd (for_loop api ps st sc)) = sc + length (successes api (length (requests st)) ps)"
  by (induction ps arbitrary: st sc) (auto simp: for_loop_Cons split: call_outcome.splits)

lemma for_loop_xml:
  "xmlOutput (fst (snd (for_loop api ps st sc))) =
     appendAll (xmlOutput st) (map snd (successes api (length (requests st)) ps))"
  by (induction ps arbitrary: st sc)
     (auto simp: for_loop_Cons appendAll_def split: call_outcome.splits)

lemma for_loop_requests:
  "requests (fst (snd (for_loop api ps st sc))) =
     requests st @
       map image_file (take (Suc (length (successes api (length (requests st)) ps))) ps)"
  by (induction ps arbitrary: st sc) (auto simp: for_loop_Cons split: call_outcome.splits)

lemma for_loop_ids:
  "map image_id (uploadedImages (fst (snd (for_loop api ps st sc)))) =
     map image_id (uploadedImages st)"
  by (induction ps arbitrary: st sc)
     (auto simp: for_loop_Cons comp_def split: call_outcome.splits)

lemma for_loop_frame:
  "toasts (fst (snd (for_loop api ps st sc))) = toasts st"
  "activeStep (fst (snd (for_loop api ps st sc))) = activeStep st"
  by (induction ps arbitrary: st sc) (auto simp: for_loop_Cons split: call_outcome.splits)

lemma for_loop_thrown:
  "fst (for_loop api ps st sc) =
     (if length (successes api (length (requests st)) ps) < length ps
      then (case callApi (api (length (requests st) + length (successes api (length (requests st)) ps))
                    (image_file (ps ! length (successes api (length (requests st)) ps)))) of
              Thrown msg \<Rightarrow> Some msg | Data raw xml \<Rightarrow> None)
      else None)"
  by (induction ps arbitrary: st sc) (auto simp: for_loop_Cons split: call_outcome.splits)

lemma for_loop_untouched:
  "n < length (uploadedImages st) \<Longrightarrow>
   image_id (uploadedImages st ! n) \<notin>
     image_id ` set (take (Suc (length (successes api (length (requests st)) ps))) ps) \<Longrightarrow>
   uploadedImages (fst (snd (for_loop api ps st sc))) ! n = uploadedImages st ! n"
proof (induction ps arbitrary: st sc)
  case Nil
  then show ?case by simp
next
  case (Cons item rest)
  from Cons.prems(2) have ne: "image_id (uploadedImages st ! n) \<noteq> image_id item"
    by auto
  show ?case
  proof (cases "callApi (api (length (requests st)) (image_file item))")
    case (Thrown msg)
    with Cons.prems(1) ne show ?thesis
      by (simp add: for_loop_Cons mark_other)
  next
    case (Data raw xml)
    let ?st' = "succeed item raw xml (attempt item st)"
    have same: "uploadedImages ?st' ! n = uploadedImages st ! n"
      using Cons.prems(1) ne by (simp add: mark_other)
    have len: "n < length (uploadedImages ?st')"
      using Cons.prems(1) by simp
    have "image_id (uploadedImages ?st' ! n) \<notin>
        image_id ` set (take (Suc (length (successes api (length (requests ?st')) rest))) rest)"
      using Cons.prems(2) Data same by auto
    from Cons.IH [OF len this] Data same show ?thesis
      by (simp add: for_loop_Cons)
  qed
qed

lemma successes_length_le: "length (successes api k ps) \<le> length ps"
  by (induction ps arbitrary: k) (auto split: call_outcome.splits)

lemma for_loop_done:
  "distinct (map image_id ps) \<Longrightarrow>
   j < length (successes api (length (requests st)) ps) \<Longrightarrow>
   n < length (uploadedImages st) \<Longrightarrow>
   image_id (uploadedImages st ! n) = image_id (ps ! j) \<Longrightarrow>
   uploadedImages (fst (snd (for_loop api ps st sc))) ! n =
     (uploadedImages st ! n)
       \<lparr>status := Complete, progress := 100,
        rawText := fst (successes api (length (requests st)) ps ! j)\<rparr>"
proof (induction ps arbitrary: st sc j)
  case Nil
  then show ?case by simp
next
  case (Cons item rest)
  from Cons.prems(2) obtain raw xml where
    data: "callApi (api (length (requests st)) (image_file item)) = Data raw xml"
    by (cases "callApi (api (length (requests st)) (image_file item))") auto
  let ?st' = "succeed item raw xml (attempt item st)"
  have len: "n < length (uploadedImages ?st')"
    using Cons.prems(3) by simp
  have run: "for_loop api (item # rest) st sc = for_loop api rest ?st' (Suc sc)"
    using data by (simp add: for_loop_Cons)
  have k: "length (requests ?st') = Suc (length (requests st))"
    by simp
  show ?case
  proof (cases j)
    case 0
    with Cons.prems(4) have same: "image_id (uploadedImages st ! n) = image_id item"
      by simp
    then have now: "uploadedImages ?st' ! n =
        (uploadedImages st ! n)\<lparr>status := Complete, progress := 100, rawText := raw\<rparr>"
      using Cons.prems(3) by (simp add: markProcessing_def markComplete_def)
    from Cons.prems(1) same have "image_id (uploadedImages st ! n) \<notin> image_id ` set rest"
      by auto
    then have "image_id (uploadedImages ?st' ! n) \<notin>
        image_id ` set (take (Suc (length (successes api (length (requests ?st')) rest))) rest)"
      using now by (auto dest: in_set_takeD)
    from for_loop_untouched [OF len this] now run data 0 show ?thesis
      by simp
  next
    case (Suc j')
    with Cons.prems(2) data have j': "j' < length (successes api (length (requests ?st')) rest)"
      by simp
    then have "j' < length rest"
      using successes_length_le [of api "length (requests ?st')" rest] by simp
    then have "rest ! j' \<in> set rest"
      by simp
    moreover from Cons.prems(1) have "image_id item \<notin> image_id ` set rest"
      by simp
    ultimately have "image_id (rest ! j') \<noteq> image_id item"
      by (metis imageI)
    with Cons.prems(4) Suc have ne: "image_id (uploadedImages st ! n) \<noteq> image_id item"
      by simp
    then have same: "uploadedImages ?st' ! n = uploadedImages st ! n"
      using Cons.prems(3) by (simp add: mark_other)
    have d: "distinct (map image_id rest)"
      using Cons.prems(1) by simp
    have i: "image_id (uploadedImages ?st' ! n) = image_id (rest ! j')"
      using same Cons.prems(4) Suc by simp
    from Cons.IH [OF d j' len i] same run data Suc show ?thesis
      by simp
  qed
qed

lemma for_loop_failing:
  "distinct (map image_id ps) \<Longrightarrow>
   length (successes api (length (requests st)) ps) < length ps \<Longrightarrow>
   n < length (uploadedImages st) \<Longrightarrow>
   image_id (uploadedImages st ! n) =
     image_id (ps ! length (successes api (length (requests st)) ps)) \<Longrightarrow>
   uploadedImages (fst (snd (for_loop api ps st sc))) ! n =
     (uploadedImages st ! n)\<lparr>status := Processing, progress := 30\<rparr>"
proof (induction ps arbitrary: st sc)
  case Nil
  then show ?case by simp
next
  case (Cons item rest)
  show ?case
  proof (cases "callApi (api (length (requests st)) (image_file item))")
    case (Thrown msg)
    with Cons.prems(4) have "image_id (uploadedImages st ! n) = image_id item"
      by simp
    with Thrown Cons.prems(3) show ?thesis
      by (simp add: for_loop_Cons mark_same)
  next
    case (Data raw xml)
    let ?st' = "succeed item raw xml (attempt item st)"
    let ?c = "length (successes api (length (requests ?st')) rest)"
    have len: "n < length (uploadedImages ?st')"
      using Cons.prems(3) by simp
    have c: "?c < length rest"
      using Cons.prems(2) Data by simp
    then have "rest ! ?c \<in> set rest"
      by simp
    moreover from Cons.prems(1) have "image_id item \<notin> image_id ` set rest"
      by simp
    ultimately have "image_id (rest ! ?c) \<noteq> image_id item"
      by (metis imageI)
    with Cons.prems(4) Data have ne: "image_id (uploadedImages st ! n) \<noteq> image_id item"
      by simp
    then have same: "uploadedImages ?st' ! n = uploadedImages st ! n"
      using Cons.prems(3) by (simp add: mark_other)
    have d: "distinct (map image_id rest)"
      using Cons.prems(1) by simp
    have i: "image_id (uploadedImages ?st' ! n) = image_id (rest ! ?c)"
      using same Cons.prems(4) Data by simp
    from Cons.IH [OF d c len i] same Data show ?thesis
      by (simp add: for_loop_Cons)
  qed
qed

lemma successes_eq:
  "c \<le> length ps \<Longrightarrow>
   (\<forall>j<c. callApi (api (k + j) (image_file (ps ! j))) = Data (raw j) (xml j)) \<Longrightarrow>
   (c < length ps \<longrightarrow> (\<exists>m. callApi (api (k + c) (image_file (ps ! c))) = Thrown m)) \<Longrightarrow>
   successes api k ps = map (\<lambda>j. (raw j, xml j)) [0..<c]"
proof (induction ps arbitrary: k c raw xml)
  case Nil
  then show ?case by simp
next
  case (Cons item rest)
  show ?case
  proof (cases c)
    case 0
    with Cons.prems(3) show ?thesis by auto
  next
    case (Suc c')
    from Cons.prems(2) Suc have head: "callApi (api k (image_file item)) = Data (raw 0) (xml 0)"
      by force
    have le: "c' \<le> length rest"
      using Cons.prems(1) Suc by simp
    have oks: "\<forall>j<c'. callApi (api (Suc k + j) (image_file (rest ! j))) =
        Data ((raw \<circ> Suc) j) ((xml \<circ> Suc) j)"
      using Cons.prems(2) Suc by force
    have stop: "c' < length rest \<longrightarrow>
        (\<exists>m. callApi (api (Suc k + c') (image_file (rest ! c'))) = Thrown m)"
      using Cons.prems(3) Suc by simp
    from Cons.IH [OF le oks stop] head Suc show ?thesis
      by (simp add: map_upt_Suc del: upt_Suc)
  qed
qed

lemma for_loop_length:
  "length (uploadedImages (fst (snd (for_loop api ps st sc)))) = length (uploadedImages st)"
  using for_loop_ids [of api ps st sc] by (metis length_map)

lemma for_loop_id_nth:
  "n < length (uploadedImages st) \<Longrightarrow>
   image_id (uploadedImages (fst (snd (for_loop api ps st sc))) ! n) =
     image_id (uploadedImages st ! n)"
  using for_loop_ids [of api ps st sc] for_loop_length [of api ps st sc]
  by (metis nth_map)

lemma for_loop_not_pending:
  "n < length (uploadedImages st) \<Longrightarrow> status (uploadedImages st ! n) \<noteq> Pending \<Longrightarrow>
   status (uploadedImages (fst (snd (for_loop api ps st sc))) ! n) \<noteq> Pending"
proof (induction ps arbitrary: st sc)
  case Nil
  then show ?case by simp
next
  case (Cons item rest)
  show ?case
  proof (cases "callApi (api (length (requests st)) (image_file item))")
    case (Thrown msg)
    with Cons.prems show ?thesis
      by (simp add: for_loop_Cons markProcessing_def)
  next
    case (Data raw xml)
    let ?st' = "succeed item raw xml (attempt item st)"
    have len: "n < length (uploadedImages ?st')"
      using Cons.prems(1) by simp
    have "status (uploadedImages ?st' ! n) \<noteq> Pending"
      using Cons.prems by (simp add: markProcessing_def markComplete_def)
    from Cons.IH [OF len this] Data show ?thesis
      by (simp add: for_loop_Cons)
  qed
qed

lemma for_loop_touched:
  "n < length (uploadedImages st) \<Longrightarrow>
   image_id (uploadedImages st ! n) \<in>
     image_id ` set (take (Suc (length (successes api (length (requests st)) ps))) ps) \<Longrightarrow>
   status (uploadedImages (fst (snd (for_loop api ps st sc))) ! n) \<noteq> Pending"
proof (induction ps arbitrary: st sc)
  case Nil
  then show ?case by simp
next
  case (Cons item rest)
  show ?case
  proof (cases "callApi (api (length (requests st)) (image_file item))")
    case (Thrown msg)
    with Cons.prems(2) have "image_id (uploadedImages st ! n) = image_id item"
      by simp
    with Thrown Cons.prems(1) show ?thesis
      by (simp add: for_loop_Cons markProcessing_def)
  next
    case (Data raw xml)
    let ?st' = "succeed item raw xml (attempt item st)"
    have len: "n < length (uploadedImages ?st')"
      using Cons.prems(1) by simp
    show ?thesis
    proof (cases "image_id (uploadedImages st ! n) = image_id item")
      case True
      then have "status (uploadedImages ?st' ! n) \<noteq> Pending"
        using Cons.prems(1) by (simp add: markProcessing_def markComplete_def)
      from for_loop_not_pending [OF len this] Data show ?thesis
        by (simp add: for_loop_Cons)
    next
      case False
      then have same: "uploadedImages ?st' ! n = uploadedImages st ! n"
        using Cons.prems(1) by (simp add: mark_other)
      have "image_id (uploadedImages ?st' ! n) \<in>
          image_id ` set (take (Suc (length (successes api (length (requests ?st')) rest))) rest)"
        using Cons.prems(2) Data same False by auto
      from Cons.IH [OF len this] Data show ?thesis
        by (simp add: for_loop_Cons)
    qed
  qed
qed

lemma successes_take:
  "j \<le> length (successes api k ps) \<Longrightarrow>
   successes api k (take j ps) = take j (successes api k ps)"
proof (induction ps arbitrary: k j)
  case Nil
  then show ?case by simp
next
  case (Cons item rest)
  show ?case
  proof (cases j)
    case 0
    then show ?thesis by simp
  next
    case (Suc j')
    with Cons.prems obtain raw xml where
      data: "callApi (api k (image_file item)) = Data raw xml"
      by (cases "callApi (api k (image_file item))") auto
    with Cons.prems Suc have "j' \<le> length (successes api (Suc k) rest)"
      by simp
    from Cons.IH [OF this] data Suc show ?thesis
      by simp
  qed
qed

lemma for_loop_split:
  "j < length (successes api (length (requests st)) ps) \<Longrightarrow>
   for_loop api ps st sc =
     for_loop api (drop (Suc j) ps)
       (fst (snd (for_loop api (take (Suc j) ps) st sc))) (sc + Suc j)"
proof (induction ps arbitrary: st sc j)
  case Nil
  then show ?case by simp
next
  case (Cons item rest)
  from Cons.prems obtain raw xml where
    data: "callApi (api (length (requests st)) (image_file item)) = Data raw xml"
    by (cases "callApi (api (length (requests st)) (image_file item))") auto
  let ?st' = "succeed item raw xml (attempt item st)"
  show ?case
  proof (cases j)
    case 0
    with data show ?thesis
      by (simp add: for_loop_Cons)
  next
    case (Suc j')
    with Cons.prems data have "j' < length (successes api (length (requests ?st')) rest)"
      by simp
    from Cons.IH [OF this, of "Suc sc"] data Suc show ?thesis
      by (simp add: for_loop_Cons)
  qed
qed

lemma for_loop_step_complete:
  "j < length (successes api (length (requests st)) ps) \<Longrightarrow>
   n < length (uploadedImages st) \<Longrightarrow>
   image_id (uploadedImages st ! n) = image_id (ps ! j) \<Longrightarrow>
   status (uploadedImages (fst (snd (for_loop api (take (Suc j) ps) st sc))) ! n) = Complete \<and>
   progress (uploadedImages (fst (snd (for_loop api (take (Suc j) ps) st sc))) ! n) = 100 \<and>
   rawText (uploadedImages (fst (snd (for_loop api (take (Suc j) ps) st sc))) ! n) =
     fst (successes api (length (requests st)) ps ! j)"
proof (induction ps arbitrary: st sc j)
  case Nil
  then show ?case by simp
next
  case (Cons item rest)
  from Cons.prems(1) obtain raw xml where
    data: "callApi (api (length (requests st)) (image_file item)) = Data raw xml"
    by (cases "callApi (api (length (requests st)) (image_file item))") auto
  let ?st' = "succeed item raw xml (attempt item st)"
  have len: "n < length (uploadedImages ?st')"
    using Cons.prems(2) by simp
  show ?case
  proof (cases j)
    case 0
    with Cons.prems(3) have "image_id (uploadedImages st ! n) = image_id item"
      by simp
    with data 0 Cons.prems(2) show ?thesis
      by (simp add: for_loop_Cons markProcessing_def markComplete_def)
  next
    case (Suc j')
    with Cons.prems(1) data have j': "j' < length (successes api (length (requests ?st')) rest)"
      by simp
    have i: "image_id (uploadedImages ?st' ! n) = image_id (rest ! j')"
      using Cons.prems(2,3) Suc by simp
    from Cons.IH [OF j' len i, of "Suc sc"] data Suc show ?thesis
      by (simp add: for_loop_Cons)
  qed
qed

lemma for_loop_keeps:
  "n < length (uploadedImages st) \<Longrightarrow>
   \<exists>s p r. uploadedImages (fst (snd (for_loop api ps st sc))) ! n =
     (uploadedImages st ! n)\<lparr>status := s, progress := p, rawText := r\<rparr>"
proof (induction ps arbitrary: st sc)
  case Nil
  have "uploadedImages st ! n =
      (uploadedImages st ! n)\<lparr>status := status (uploadedImages st ! n),
        progress := progress (uploadedImages st ! n), rawText := rawText (uploadedImages st ! n)\<rparr>"
    by simp
  then show ?case
    by (simp only: for_loop.simps fst_conv snd_conv) blast
next
  case (Cons item rest)
  show ?case
  proof (cases "callApi (api (length (requests st)) (image_file item))")
    case (Thrown msg)
    have "markProcessing (image_id item) (uploadedImages st ! n) =
        (uploadedImages st ! n)\<lparr>status := status (markProcessing (image_id item) (uploadedImages st ! n)),
          progress := progress (markProcessing (image_id item) (uploadedImages st ! n)),
          rawText := rawText (uploadedImages st ! n)\<rparr>"
      by (simp add: markProcessing_def)
    moreover have "uploadedImages (fst (snd (for_loop api (item # rest) st sc))) ! n =
        markProcessing (image_id item) (uploadedImages st ! n)"
      using Thrown Cons.prems by (simp add: for_loop_Cons)
    ultimately show ?thesis
      by metis
  next
    case (Data raw xml)
    let ?st' = "succeed item raw xml (attempt item st)"
    have len: "n < length (uploadedImages ?st')"
      using Cons.prems by simp
    from Cons.IH [OF len, of "Suc sc"] obtain s p r where
      x: "uploadedImages (fst (snd (for_loop api rest ?st' (Suc sc)))) ! n =
        (uploadedImages ?st' ! n)\<lparr>status := s, progress := p, rawText := r\<rparr>"
      by blast
    have "(uploadedImages ?st' ! n)\<lparr>status := s, progress := p, rawText := r\<rparr> =
        (uploadedImages st ! n)\<lparr>status := s, progress := p, rawText := r\<rparr>"
      using Cons.prems by (simp add: markProcessing_def markComplete_def)
    with x Data have "uploadedImages (fst (snd (for_loop api (item # rest) st sc))) ! n =
        (uploadedImages st ! n)\<lparr>status := s, progress := p, rawText := r\<rparr>"
      by (simp add: for_loop_Cons)
    then show ?thesis
      by blast
  qed
qed

lemma for_loop_step_record:
  assumes "j < length (successes api (length (requests st)) ps)"
    and "n < length (uploadedImages st)"
    and "image_id (uploadedImages st ! n) = image_id (ps ! j)"
  shows "uploadedImages (fst (snd (for_loop api (take (Suc j) ps) st sc))) ! n =
     (uploadedImages st ! n)
       \<lparr>status := Complete, progress := 100,
        rawText := fst (successes api (length (requests st)) ps ! j)\<rparr>"
proof -
  let ?X = "uploadedImages (fst (snd (for_loop api (take (Suc j) ps) st sc))) ! n"
  from for_loop_keeps [OF assms(2), of api "take (Suc j) ps" sc] obtain s p r where
    x: "?X = (uploadedImages st ! n)\<lparr>status := s, progress := p, rawText := r\<rparr>"
    by blast
  from for_loop_step_complete [OF assms, of sc] have
    "status ?X = Complete" "progress ?X = 100"
    "rawText ?X = fst (successes api (length (requests st)) ps ! j)"
    by simp_all
  with x have "s = Complete" "p = 100" "r = fst (successes api (length (requests st)) ps ! j)"
    by simp_all
  with x show ?thesis
    by simp
qed

subsection \<open>The whole run\<close>

lemma run_start_fields [simp]:
  "uploadedImages (run_start st) = uploadedImages st"
  "requests (run_start st) = requests st"
  "xmlOutput (run_start st) = xmlOutput st"
  "toasts (run_start st) = toasts st"
  by (simp_all add: run_start_def)

lemma processImages_idle:
  "pendingImages st = [] \<Longrightarrow> processImages api st = (st, 0)"
  by (simp add: processImages_def)

lemma processImages_run:
  assumes "pendingImages st \<noteq> []"
  shows "snd (processImages api st) = snd (snd (for_loop api (pendingImages st) (run_start st) 0))"
    and "xmlOutput (fst (processImages api st)) =
           xmlOutput (fst (snd (for_loop api (pendingImages st) (run_start st) 0)))"
    and "requests (fst (processImages api st)) =
           requests (fst (snd (for_loop api (pendingImages st) (run_start st) 0)))"
    and "uploadedImages (fst (processImages api st)) =
           (case fst (for_loop api (pendingImages st) (run_start st) 0) of
              None \<Rightarrow> uploadedImages (fst (snd (for_loop api (pendingImages st) (run_start st) 0)))
            | Some msg \<Rightarrow>
                map (markError (image_id (pendingImages st ! 0)) msg)
                  (uploadedImages (fst (snd (for_loop api (pendingImages st) (run_start st) 0)))))"
proof -
  from assms obtain first others where p: "pendingImages st = first # others"
    by (cases "pendingImages st") auto
  obtain thrown st1 n where l: "for_loop api (first # others) (run_start st) 0 = (thrown, st1, n)"
    by (cases "for_loop api (first # others) (run_start st) 0") auto
  then have l': "for_loop api (first # others)
      (st\<lparr>isProcessing := True, activeStep := 2, processingStage := StageUploading,
          progressValue := 10\<rparr>) 0 = (thrown, st1, n)"
    by (simp add: run_start_def)
  show "snd (processImages api st) = snd (snd (for_loop api (pendingImages st) (run_start st) 0))"
    using p l l' by (simp add: processImages_def Let_def)
  show "xmlOutput (fst (processImages api st)) =
           xmlOutput (fst (snd (for_loop api (pendingImages st) (run_start st) 0)))"
    using p l l' by (simp add: processImages_def Let_def setUploadedImages_def split: option.split)
  show "requests (fst (processImages api st)) =
           requests (fst (snd (for_loop api (pendingImages st) (run_start st) 0)))"
    using p l l' by (simp add: processImages_def Let_def setUploadedImages_def split: option.split)
  show "uploadedImages (fst (processImages api st)) =
           (case fst (for_loop api (pendingImages st) (run_start st) 0) of
              None \<Rightarrow> uploadedImages (fst (snd (for_loop api (pendingImages st) (run_start st) 0)))
            | Some msg \<Rightarrow>
                map (markError (image_id (pendingImages st ! 0)) msg)
                  (uploadedImages (fst (snd (for_loop api (pendingImages st) (run_start st) 0)))))"
    using p l l' by (simp add: processImages_def Let_def setUploadedImages_def split: option.split)
qed



lemma appendAll_snoc: "appendAll out (xmls @ [x]) = appendXml x (appendAll out xmls)"
  by (simp add: appendAll_def)

lemma processImages_xml:
  "xmlOutput (fst (processImages api st)) =
     appendAll (xmlOutput st) (map snd (successes api (length (requests st)) (pendingImages st)))"
proof (cases "pendingImages st = []")
  case True
  then show ?thesis by (simp add: processImages_idle appendAll_def)
next
  case False
  then show ?thesis by (simp add: processImages_run for_loop_xml)
qed

lemma processImages_count:
  "snd (processImages api st) = length (successes api (length (requests st)) (pendingImages st))"
proof (cases "pendingImages st = []")
  case True
  then show ?thesis by (simp add: processImages_idle)
next
  case False
  then show ?thesis by (simp add: processImages_run for_loop_count)
qed

lemma pending_distinct:
  "distinct (map image_id (uploadedImages st)) \<Longrightarrow> distinct (map image_id (pendingImages st))"
  by (simp add: pendingImages_def distinct_map_filter)

lemma pending_ids_differ:
  assumes "distinct (map image_id (uploadedImages st))"
    and "i < length (pendingImages st)" and "j < length (pendingImages st)" and "i \<noteq> j"
  shows "image_id (pendingImages st ! i) \<noteq> image_id (pendingImages st ! j)"
proof -
  from assms(1) have "distinct (map image_id (pendingImages st))"
    by (rule pending_distinct)
  moreover from assms(2,3) have "i < length (map image_id (pendingImages st))"
    and "j < length (map image_id (pendingImages st))"
    by simp_all
  ultimately have "map image_id (pendingImages st) ! i \<noteq> map image_id (pendingImages st) ! j"
    using assms(4) nth_eq_iff_index_eq by blast
  with assms(2,3) show ?thesis by simp
qed

lemma pending_take_ids:
  assumes d: "distinct (map image_id (uploadedImages st))"
    and j: "j < length (pendingImages st)" and cj: "c < j"
  shows "image_id (pendingImages st ! j) \<notin> image_id ` set (take (Suc c) (pendingImages st))"
proof
  assume "image_id (pendingImages st ! j) \<in> image_id ` set (take (Suc c) (pendingImages st))"
  then obtain x where x: "x \<in> set (take (Suc c) (pendingImages st))"
    and e: "image_id (pendingImages st ! j) = image_id x"
    by auto
  from x obtain i where i: "i < length (take (Suc c) (pendingImages st))"
    and xi: "take (Suc c) (pendingImages st) ! i = x"
    by (auto simp: in_set_conv_nth)
  from i have ic: "i < Suc c" and il: "i < length (pendingImages st)"
    by simp_all
  with xi have "x = pendingImages st ! i"
    by simp
  moreover from ic cj have "i \<noteq> j"
    by simp
  ultimately show False
    using pending_ids_differ [OF d il j] e by simp
qed

subsection \<open>The example runs, evaluated\<close>

lemmas run_defs =
  processImages_def pendingImages_def for_loop.simps Let_def setUploadedImages_def
  markProcessing_def markComplete_def markError_def callApi_def appendXml_def
  example_state_def example_image_def initial_state_def

lemma three_pending_eval:
  "pendingImages three_pending = uploadedImages three_pending"
  "uploadedImages three_pending =
     [example_image ''a'' Pending, example_image ''b'' Pending, example_image ''c'' Pending]"
  "requests three_pending = []"
  "xmlOutput three_pending = []"
  by (simp_all add: three_pending_def pendingImages_def example_state_def example_image_def
      initial_state_def)


lemma mixed_batch_eval:
  "uploadedImages mixed_batch =
     [(example_image ''z'' Complete)\<lparr>progress := 100, rawText := ''raw z''\<rparr>,
      (example_image ''a'' Error)\<lparr>progress := 30, error := Some ''old''\<rparr>,
      example_image ''b'' Pending, example_image ''c'' Pending]"
  "pendingImages mixed_batch =
     [(example_image ''a'' Error)\<lparr>progress := 30, error := Some ''old''\<rparr>,
      example_image ''b'' Pending, example_image ''c'' Pending]"
  "requests mixed_batch = []"
  by (simp_all add: mixed_batch_def pendingImages_def example_state_def example_image_def
      initial_state_def)

lemma digit_char_two: "digit_char (Suc (Suc 0)) = CHR ''2''"
proof -
  have "Suc (Suc 0) = 2" by simp
  then show ?thesis by (simp only: digit_char_eval)
qed

subsection \<open>A failing request\<close>

text \<open>
  Claim C2, as amended. Let the first \<open>c\<close> requests of a run succeed and let the request for
  the eligible record at position \<open>c\<close> throw an error with message \<open>m\<close>. The eligible set
  is the list of the records that were pending or in error when the run started, in batch
  order. After \<^verbatim>\<open>processImages\<close> the batch has the same length; every record that carries
  the id of the first eligible record has status \<open>Error\<close> and error message \<open>m\<close>; exactly
  the requests for the eligible records at positions \<open>0..c\<close> were sent, so the run stopped
  iterating; and the success counter is \<open>c\<close>. A record whose id differs from the ids of
  the attempted records, the eligible records at positions \<open>0..c\<close>, is unchanged, its
  status included; a record that shares its id with an attempted record does not end
  pending, whether it was attempted or not. When the ids of the batch are distinct, every
  eligible record after position \<open>c\<close> is therefore unchanged.
\<close>

theorem processImages_failure_marks_first:
  assumes c: "c < length (pendingImages st)"
    and oks: "\<forall>j<c. callApi (api (length (requests st) + j) (image_file (pendingImages st ! j))) =
                 Data (raw j) (xml j)"
    and fails: "callApi (api (length (requests st) + c) (image_file (pendingImages st ! c))) =
                 Thrown m"
  shows "pendingImages st =
      filter (\<lambda>img. status img = Pending \<or> status img = Error) (uploadedImages st) \<and>
    length (uploadedImages (fst (processImages api st))) = length (uploadedImages st) \<and>
    (\<forall>n<length (uploadedImages st).
       image_id (uploadedImages st ! n) = image_id (pendingImages st ! 0) \<longrightarrow>
         status (uploadedImages (fst (processImages api st)) ! n) = Error \<and>
         error (uploadedImages (fst (processImages api st)) ! n) = Some m) \<and>
    requests (fst (processImages api st)) =
      requests st @ map image_file (take (Suc c) (pendingImages st)) \<and>
    snd (processImages api st) = c \<and>
    (\<forall>n<length (uploadedImages st).
       image_id (uploadedImages st ! n) \<notin> image_id ` set (take (Suc c) (pendingImages st)) \<longrightarrow>
         uploadedImages (fst (processImages api st)) ! n = uploadedImages st ! n) \<and>
    (\<forall>n<length (uploadedImages st).
       image_id (uploadedImages st ! n) \<in> image_id ` set (take (Suc c) (pendingImages st)) \<longrightarrow>
         status (uploadedImages (fst (processImages api st)) ! n) \<noteq> Pending) \<and>
    (distinct (map image_id (uploadedImages st)) \<longrightarrow>
       (\<forall>j n. c < j \<and> j < length (pendingImages st) \<and> n < length (uploadedImages st) \<and>
          uploadedImages st ! n = pendingImages st ! j \<longrightarrow>
            uploadedImages (fst (processImages api st)) ! n = uploadedImages st ! n))"
proof -
  let ?P = "pendingImages st"
  let ?U = "uploadedImages st"
  let ?L = "for_loop api ?P (run_start st) 0"
  let ?k = "length (requests st)"
  let ?F = "uploadedImages (fst (processImages api st))"
  from c have ne: "?P \<noteq> []" by auto
  have "successes api ?k ?P = map (\<lambda>j. (raw j, xml j)) [0..<c]"
    using c oks fails by (intro successes_eq) auto
  then have lenS: "length (successes api ?k ?P) = c"
    by simp
  have thrown: "fst ?L = Some m"
    using lenS c fails by (simp add: for_loop_thrown)
  have final: "?F = map (markError (image_id (?P ! 0)) m) (uploadedImages (fst (snd ?L)))"
    using thrown by (simp add: processImages_run(4) [OF ne])
  have lenL: "length (uploadedImages (fst (snd ?L))) = length ?U"
    by (simp add: for_loop_length)
  have first_in: "image_id (?P ! 0) \<in> image_id ` set (take (Suc c) ?P)"
  proof -
    from ne obtain x xs where "?P = x # xs"
      by (cases ?P) auto
    then show ?thesis
      by simp
  qed
  have p0: "?P = filter (\<lambda>img. status img = Pending \<or> status img = Error) ?U"
    by (simp add: pendingImages_def)
  have p1: "length ?F = length ?U"
    using final lenL by simp
  have p2: "\<forall>n<length ?U.
       image_id (?U ! n) = image_id (?P ! 0) \<longrightarrow> status (?F ! n) = Error \<and> error (?F ! n) = Some m"
  proof (intro allI impI)
    fix n
    assume n: "n < length ?U" and e: "image_id (?U ! n) = image_id (?P ! 0)"
    have "image_id (uploadedImages (fst (snd ?L)) ! n) = image_id (?U ! n)"
      using n by (simp add: for_loop_id_nth)
    with e have "image_id (uploadedImages (fst (snd ?L)) ! n) = image_id (?P ! 0)"
      by simp
    then show "status (?F ! n) = Error \<and> error (?F ! n) = Some m"
      using final n lenL by (simp add: markError_def)
  qed
  have p3: "requests (fst (processImages api st)) = requests st @ map image_file (take (Suc c) ?P)"
    using lenS by (simp add: processImages_run(3) [OF ne] for_loop_requests)
  have p4: "snd (processImages api st) = c"
    using lenS by (simp add: processImages_count)
  have p5: "\<forall>n<length ?U.
       image_id (?U ! n) \<notin> image_id ` set (take (Suc c) ?P) \<longrightarrow> ?F ! n = ?U ! n"
  proof (intro allI impI)
    fix n
    assume n: "n < length ?U" and e: "image_id (?U ! n) \<notin> image_id ` set (take (Suc c) ?P)"
    from e lenS have "image_id (uploadedImages (run_start st) ! n) \<notin>
        image_id ` set (take (Suc (length (successes api (length (requests (run_start st))) ?P))) ?P)"
      by simp
    moreover from n have "n < length (uploadedImages (run_start st))"
      by simp
    ultimately have same: "uploadedImages (fst (snd ?L)) ! n = ?U ! n"
      using for_loop_untouched [of n "run_start st" api ?P 0] by simp
    from e first_in have "image_id (?U ! n) \<noteq> image_id (?P ! 0)"
      by auto
    with same final n lenL show "?F ! n = ?U ! n"
      by (simp add: mark_other)
  qed
  have p6: "\<forall>n<length ?U.
       image_id (?U ! n) \<in> image_id ` set (take (Suc c) ?P) \<longrightarrow> status (?F ! n) \<noteq> Pending"
  proof (intro allI impI)
    fix n
    assume n: "n < length ?U" and e: "image_id (?U ! n) \<in> image_id ` set (take (Suc c) ?P)"
    from e lenS have "image_id (uploadedImages (run_start st) ! n) \<in>
        image_id ` set (take (Suc (length (successes api (length (requests (run_start st))) ?P))) ?P)"
      by simp
    moreover from n have "n < length (uploadedImages (run_start st))"
      by simp
    ultimately have "status (uploadedImages (fst (snd ?L)) ! n) \<noteq> Pending"
      using for_loop_touched [of n "run_start st" api ?P 0] by blast
    with final n lenL show "status (?F ! n) \<noteq> Pending"
      by (simp add: markError_def)
  qed
  have p7: "distinct (map image_id ?U) \<longrightarrow>
       (\<forall>j n. c < j \<and> j < length ?P \<and> n < length ?U \<and> ?U ! n = ?P ! j \<longrightarrow> ?F ! n = ?U ! n)"
  proof (intro allI impI)
    fix j n
    assume d: "distinct (map image_id ?U)"
      and a: "c < j \<and> j < length ?P \<and> n < length ?U \<and> ?U ! n = ?P ! j"
    then have cj: "c < j" and j: "j < length ?P" and n: "n < length ?U"
      and e: "?U ! n = ?P ! j"
      by simp_all
    have "image_id (?P ! j) \<notin> image_id ` set (take (Suc c) ?P)"
      using d j cj by (rule pending_take_ids)
    with e have "image_id (?U ! n) \<notin> image_id ` set (take (Suc c) ?P)"
      by simp
    with p5 n show "?F ! n = ?U ! n"
      by blast
  qed
  from p0 p1 p2 p3 p4 p5 p6 p7 show ?thesis
    by (intro conjI)
qed

text \<open>
  The theorem at a batch of a complete record, a failed one and two pending ones, in a run
  whose second request fails.
\<close>

theorem processImages_failure_marks_first_witness:
  "pendingImages mixed_batch =
     [(example_image ''a'' Error)\<lparr>progress := 30, error := Some ''old''\<rparr>,
      example_image ''b'' Pending, example_image ''c'' Pending] \<and>
   callApi (failing_second_api 0 (image_file (pendingImages mixed_batch ! 0))) =
     Data ''raw a'' ''<A/>'' \<and>
   callApi (failing_second_api 1 (image_file (pendingImages mixed_batch ! 1))) =
     Thrown ''Failed to fetch'' \<and>
   distinct (map image_id (uploadedImages mixed_batch)) \<and>
   status (uploadedImages (fst (processImages failing_second_api mixed_batch)) ! 1) = Error \<and>
   error (uploadedImages (fst (processImages failing_second_api mixed_batch)) ! 1) =
     Some ''Failed to fetch'' \<and>
   requests (fst (processImages failing_second_api mixed_batch)) =
     map image_file (take 2 (pendingImages mixed_batch)) \<and>
   snd (processImages failing_second_api mixed_batch) = 1 \<and>
   uploadedImages (fst (processImages failing_second_api mixed_batch)) ! 0 =
     (example_image ''z'' Complete)\<lparr>progress := 100, rawText := ''raw z''\<rparr> \<and>
   status (uploadedImages (fst (processImages failing_second_api mixed_batch)) ! 2) \<noteq> Pending \<and>
   uploadedImages (fst (processImages failing_second_api mixed_batch)) ! 3 =
     example_image ''c'' Pending"
proof -
  let ?F = "uploadedImages (fst (processImages failing_second_api mixed_batch))"
  let ?U = "uploadedImages mixed_batch"
  let ?P = "pendingImages mixed_batch"
  have d: "distinct (map image_id ?U)"
    by (simp add: mixed_batch_eval example_image_def)
  have c: "1 < length ?P"
    by (simp add: mixed_batch_eval)
  have oks: "\<forall>j<1. callApi (failing_second_api (length (requests mixed_batch) + j)
      (image_file (?P ! j))) = Data ((\<lambda>j. ''raw a'') j) ((\<lambda>j. ''<A/>'') j)"
    by (simp add: mixed_batch_eval failing_second_api_def callApi_def)
  have fails: "callApi (failing_second_api (length (requests mixed_batch) + 1)
      (image_file (?P ! 1))) = Thrown ''Failed to fetch''"
    by (simp add: mixed_batch_eval failing_second_api_def callApi_def)
  note t = processImages_failure_marks_first [OF c oks fails]
  from t have p2: "\<forall>n<length ?U. image_id (?U ! n) = image_id (?P ! 0) \<longrightarrow>
      status (?F ! n) = Error \<and> error (?F ! n) = Some ''Failed to fetch''"
    by (elim conjE) assumption
  from t have p3: "requests (fst (processImages failing_second_api mixed_batch)) =
      requests mixed_batch @ map image_file (take (Suc 1) ?P)"
    by (elim conjE) assumption
  from t have p4: "snd (processImages failing_second_api mixed_batch) = 1"
    by (elim conjE) assumption
  from t have p5: "\<forall>n<length ?U.
      image_id (?U ! n) \<notin> image_id ` set (take (Suc 1) ?P) \<longrightarrow> ?F ! n = ?U ! n"
    by (elim conjE) assumption
  from t have p6: "\<forall>n<length ?U.
      image_id (?U ! n) \<in> image_id ` set (take (Suc 1) ?P) \<longrightarrow> status (?F ! n) \<noteq> Pending"
    by (elim conjE) assumption
  from t have p7: "distinct (map image_id ?U) \<longrightarrow>
      (\<forall>j n. 1 < j \<and> j < length ?P \<and> n < length ?U \<and> ?U ! n = ?P ! j \<longrightarrow> ?F ! n = ?U ! n)"
    by (elim conjE) assumption
  have n1: "1 < length ?U" and n0: "0 < length ?U" and n2: "2 < length ?U" and n3: "3 < length ?U"
    by (simp_all add: mixed_batch_eval)
  have "image_id (?U ! 1) = image_id (?P ! 0)"
    by (simp add: mixed_batch_eval)
  with p2 n1 have first: "status (?F ! 1) = Error \<and> error (?F ! 1) = Some ''Failed to fetch''"
    by blast
  from p3 have reqs: "requests (fst (processImages failing_second_api mixed_batch)) =
      map image_file (take 2 ?P)"
    by (simp add: mixed_batch_eval)
  have "image_id (?U ! 0) \<notin> image_id ` set (take (Suc 1) ?P)"
    by (simp add: mixed_batch_eval example_image_def)
  with p5 n0 have "?F ! 0 = ?U ! 0"
    by blast
  then have other: "?F ! 0 = (example_image ''z'' Complete)\<lparr>progress := 100, rawText := ''raw z''\<rparr>"
    by (simp add: mixed_batch_eval)
  have "image_id (?U ! 2) \<in> image_id ` set (take (Suc 1) ?P)"
    by (simp add: mixed_batch_eval example_image_def)
  with p6 n2 have failed: "status (?F ! 2) \<noteq> Pending"
    by blast
  have "(1::nat) < 2 \<and> 2 < length ?P \<and> 3 < length ?U \<and> ?U ! 3 = ?P ! 2"
    by (simp add: mixed_batch_eval)
  with p7 d have "?F ! 3 = ?U ! 3"
    by blast
  then have rest: "?F ! 3 = example_image ''c'' Pending"
    by (simp add: mixed_batch_eval)
  have e0: "callApi (failing_second_api 0 (image_file (?P ! 0))) = Data ''raw a'' ''<A/>''"
    using oks by (simp add: mixed_batch_eval)
  have e1: "callApi (failing_second_api 1 (image_file (?P ! 1))) = Thrown ''Failed to fetch''"
    using fails by (simp add: mixed_batch_eval)
  have p: "?P = [(example_image ''a'' Error)\<lparr>progress := 30, error := Some ''old''\<rparr>,
      example_image ''b'' Pending, example_image ''c'' Pending]"
    by (rule mixed_batch_eval)
  from first have f1: "status (?F ! 1) = Error" and f2: "error (?F ! 1) = Some ''Failed to fetch''"
    by simp_all
  from p e0 e1 d f1 f2 reqs p4 other failed rest show ?thesis
    by (intro conjI)
qed

text \<open>
  Claim C2 as stated fails, because ids are not unique. In a run on the batch of two
  pending records with one id whose first request fails, one request is sent, and the
  second record, which was never attempted, ends with status \<open>Error\<close> and progress 30.
\<close>

theorem processImages_shared_id_marks_unattempted:
  "map image_id (uploadedImages same_id_pending) =
     [''1700000000000-0-scan.png'', ''1700000000000-0-scan.png''] \<and>
   map status (uploadedImages same_id_pending) = [Pending, Pending] \<and>
   requests same_id_pending = [] \<and>
   requests (fst (processImages failing_first_api same_id_pending)) = [scan_png] \<and>
   map status (uploadedImages (fst (processImages failing_first_api same_id_pending))) =
     [Error, Error] \<and>
   map progress (uploadedImages (fst (processImages failing_first_api same_id_pending))) =
     [30, 30]"
  by (simp add: processImages_def same_id_pending_eval for_loop.simps Let_def
      setUploadedImages_def markProcessing_def markError_def callApi_def
      failing_first_api_def scan_image_def)

subsection \<open>Successful requests\<close>

text \<open>
  Claim C3, as amended. Let exactly the first \<open>c\<close> requests of a run succeed, request \<open>j\<close>
  returning \<open>raw j\<close> and \<open>xml j\<close>; the eligible set is the list of the records that were
  pending or in error when the run started. For each \<open>j < c\<close> the run passes through the
  state reached by the iterations \<open>0..j\<close>, and in that state, right after the updates of
  lines 210-219 for request \<open>j\<close>: every record that carries the id of the eligible record
  at position \<open>j\<close> has status \<open>Complete\<close>, progress 100 and \<open>raw j\<close> as its raw text, and is
  otherwise as it was before the run, so the fragment is stored in no field of the
  record; the combined output is the output of the state before that iteration with
  \<open>xml j\<close> appended; and the success counter has gone from \<open>j\<close> to \<open>j + 1\<close>. At the end of
  the run the counter is \<open>c\<close> and the combined output is the output before the run with
  \<open>xml 0, ..., xml (c - 1)\<close> appended in that order. At the end of the run, when the ids of
  the batch are distinct, the eligible record at each position \<open>j < c\<close> still has \<open>raw j\<close>
  as its raw text, progress 100 and its \<^verbatim>\<open>parsedData\<close> untouched; its status is
  \<open>Complete\<close> if it is not the first eligible record or if no request of the run failed,
  and \<open>Error\<close> if it is the first eligible record and a later request failed.
\<close>

theorem processImages_success_effects:
  assumes c: "c \<le> length (pendingImages st)"
    and oks: "\<forall>j<c. callApi (api (length (requests st) + j) (image_file (pendingImages st ! j))) =
                 Data (raw j) (xml j)"
    and stop: "c < length (pendingImages st) \<longrightarrow>
                 (\<exists>m. callApi (api (length (requests st) + c) (image_file (pendingImages st ! c))) =
                    Thrown m)"
  shows "pendingImages st =
      filter (\<lambda>img. status img = Pending \<or> status img = Error) (uploadedImages st) \<and>
    (\<forall>j<c.
       for_loop api (pendingImages st) (run_start st) 0 =
         for_loop api (drop (Suc j) (pendingImages st))
           (fst (snd (for_loop api (take (Suc j) (pendingImages st)) (run_start st) 0))) (Suc j) \<and>
       snd (snd (for_loop api (take j (pendingImages st)) (run_start st) 0)) = j \<and>
       snd (snd (for_loop api (take (Suc j) (pendingImages st)) (run_start st) 0)) = Suc j \<and>
       xmlOutput (fst (snd (for_loop api (take (Suc j) (pendingImages st)) (run_start st) 0))) =
         appendXml (xml j)
           (xmlOutput (fst (snd (for_loop api (take j (pendingImages st)) (run_start st) 0)))) \<and>
       (\<forall>n<length (uploadedImages st).
          image_id (uploadedImages st ! n) = image_id (pendingImages st ! j) \<longrightarrow>
            uploadedImages
              (fst (snd (for_loop api (take (Suc j) (pendingImages st)) (run_start st) 0))) ! n =
            (uploadedImages st ! n)\<lparr>status := Complete, progress := 100, rawText := raw j\<rparr>)) \<and>
    snd (processImages api st) = c \<and>
    xmlOutput (fst (processImages api st)) = appendAll (xmlOutput st) (map xml [0..<c]) \<and>
    (distinct (map image_id (uploadedImages st)) \<longrightarrow>
       (\<forall>j n. j < c \<and> n < length (uploadedImages st) \<and>
          uploadedImages st ! n = pendingImages st ! j \<longrightarrow>
            rawText (uploadedImages (fst (processImages api st)) ! n) = raw j \<and>
            progress (uploadedImages (fst (processImages api st)) ! n) = 100 \<and>
            parsedData (uploadedImages (fst (processImages api st)) ! n) =
              parsedData (uploadedImages st ! n) \<and>
            (0 < j \<or> c = length (pendingImages st) \<longrightarrow>
               status (uploadedImages (fst (processImages api st)) ! n) = Complete) \<and>
            (j = 0 \<and> c < length (pendingImages st) \<longrightarrow>
               status (uploadedImages (fst (processImages api st)) ! n) = Error)))"
proof -
  let ?P = "pendingImages st"
  let ?U = "uploadedImages st"
  let ?L = "for_loop api ?P (run_start st) 0"
  let ?T = "\<lambda>j. for_loop api (take j ?P) (run_start st) 0"
  let ?k = "length (requests st)"
  let ?F = "uploadedImages (fst (processImages api st))"
  have succ: "successes api ?k ?P = map (\<lambda>j. (raw j, xml j)) [0..<c]"
    using c oks stop by (intro successes_eq) auto
  then have lenS: "length (successes api ?k ?P) = c"
    by simp
  have p0: "?P = filter (\<lambda>img. status img = Pending \<or> status img = Error) ?U"
    by (simp add: pendingImages_def)
  have cnt: "snd (snd (?T j)) = j" if "j \<le> c" for j
  proof -
    from that lenS have "j \<le> length (successes api ?k ?P)"
      by simp
    then have "successes api ?k (take j ?P) = take j (successes api ?k ?P)"
      by (rule successes_take)
    with that lenS show ?thesis
      by (simp add: for_loop_count)
  qed
  have out: "xmlOutput (fst (snd (?T j))) = appendAll (xmlOutput st) (map xml [0..<j])"
    if "j \<le> c" for j
  proof -
    from that lenS have "j \<le> length (successes api ?k ?P)"
      by simp
    then have "successes api ?k (take j ?P) = take j (successes api ?k ?P)"
      by (rule successes_take)
    with that succ show ?thesis
      by (simp add: for_loop_xml take_map comp_def)
  qed
  have step: "?L = for_loop api (drop (Suc j) ?P) (fst (snd (?T (Suc j)))) (Suc j) \<and>
       snd (snd (?T j)) = j \<and>
       snd (snd (?T (Suc j))) = Suc j \<and>
       xmlOutput (fst (snd (?T (Suc j)))) = appendXml (xml j) (xmlOutput (fst (snd (?T j)))) \<and>
       (\<forall>n<length ?U. image_id (?U ! n) = image_id (?P ! j) \<longrightarrow>
          uploadedImages (fst (snd (?T (Suc j)))) ! n =
            (?U ! n)\<lparr>status := Complete, progress := 100, rawText := raw j\<rparr>)"
    if jc: "j < c" for j
  proof -
    from jc lenS have js: "j < length (successes api (length (requests (run_start st))) ?P)"
      by simp
    have s1: "?L = for_loop api (drop (Suc j) ?P) (fst (snd (?T (Suc j)))) (Suc j)"
      using for_loop_split [OF js, of 0] by simp
    from jc have s2: "snd (snd (?T j)) = j" and s3: "snd (snd (?T (Suc j))) = Suc j"
      by (simp_all add: cnt)
    from jc have "xmlOutput (fst (snd (?T (Suc j)))) =
        appendAll (xmlOutput st) (map xml [0..<j] @ [xml j])"
      by (simp add: out)
    also have "\<dots> = appendXml (xml j) (appendAll (xmlOutput st) (map xml [0..<j]))"
      by (rule appendAll_snoc)
    also from jc have "\<dots> = appendXml (xml j) (xmlOutput (fst (snd (?T j))))"
      by (simp add: out)
    finally have s4:
      "xmlOutput (fst (snd (?T (Suc j)))) = appendXml (xml j) (xmlOutput (fst (snd (?T j))))" .
    have s5: "\<forall>n<length ?U. image_id (?U ! n) = image_id (?P ! j) \<longrightarrow>
          uploadedImages (fst (snd (?T (Suc j)))) ! n =
            (?U ! n)\<lparr>status := Complete, progress := 100, rawText := raw j\<rparr>"
    proof (intro allI impI)
      fix n
      assume n: "n < length ?U" and e: "image_id (?U ! n) = image_id (?P ! j)"
      from n have n': "n < length (uploadedImages (run_start st))"
        by simp
      from e have e': "image_id (uploadedImages (run_start st) ! n) = image_id (?P ! j)"
        by simp
      from for_loop_step_record [OF js n' e', of 0] succ jc
      show "uploadedImages (fst (snd (?T (Suc j)))) ! n =
            (?U ! n)\<lparr>status := Complete, progress := 100, rawText := raw j\<rparr>"
        by simp
    qed
    from s1 s2 s3 s4 s5 show ?thesis
      by (intro conjI)
  qed
  then have p1: "\<forall>j<c. ?L = for_loop api (drop (Suc j) ?P) (fst (snd (?T (Suc j)))) (Suc j) \<and>
       snd (snd (?T j)) = j \<and>
       snd (snd (?T (Suc j))) = Suc j \<and>
       xmlOutput (fst (snd (?T (Suc j)))) = appendXml (xml j) (xmlOutput (fst (snd (?T j)))) \<and>
       (\<forall>n<length ?U. image_id (?U ! n) = image_id (?P ! j) \<longrightarrow>
          uploadedImages (fst (snd (?T (Suc j)))) ! n =
            (?U ! n)\<lparr>status := Complete, progress := 100, rawText := raw j\<rparr>)"
    by blast
  have p2: "snd (processImages api st) = c"
    using lenS by (simp add: processImages_count)
  have p3: "xmlOutput (fst (processImages api st)) = appendAll (xmlOutput st) (map xml [0..<c])"
    using succ by (simp add: processImages_xml comp_def)
  have p4: "distinct (map image_id ?U) \<longrightarrow>
      (\<forall>j n. j < c \<and> n < length ?U \<and> ?U ! n = ?P ! j \<longrightarrow>
         rawText (?F ! n) = raw j \<and> progress (?F ! n) = 100 \<and>
         parsedData (?F ! n) = parsedData (?U ! n) \<and>
         (0 < j \<or> c = length ?P \<longrightarrow> status (?F ! n) = Complete) \<and>
         (j = 0 \<and> c < length ?P \<longrightarrow> status (?F ! n) = Error))"
  proof (intro allI impI)
    fix j n
    assume d: "distinct (map image_id ?U)"
      and a: "j < c \<and> n < length ?U \<and> ?U ! n = ?P ! j"
    then have jc: "j < c" and n: "n < length ?U" and e: "?U ! n = ?P ! j"
      by simp_all
    from jc c have ne: "?P \<noteq> []" and jl: "j < length ?P"
      by auto
    have lenL: "length (uploadedImages (fst (snd ?L))) = length ?U"
      by (simp add: for_loop_length)
    have "uploadedImages (fst (snd ?L)) ! n =
        (uploadedImages (run_start st) ! n)
          \<lparr>status := Complete, progress := 100,
           rawText := fst (successes api (length (requests (run_start st))) ?P ! j)\<rparr>"
      using pending_distinct [OF d] jc lenS n e
      by (intro for_loop_done) simp_all
    then have compl: "uploadedImages (fst (snd ?L)) ! n =
        (?U ! n)\<lparr>status := Complete, progress := 100, rawText := raw j\<rparr>"
      using succ jc by simp
    show "rawText (?F ! n) = raw j \<and> progress (?F ! n) = 100 \<and>
         parsedData (?F ! n) = parsedData (?U ! n) \<and>
         (0 < j \<or> c = length ?P \<longrightarrow> status (?F ! n) = Complete) \<and>
         (j = 0 \<and> c < length ?P \<longrightarrow> status (?F ! n) = Error)"
    proof (cases "fst ?L")
      case None
      then have "?F = uploadedImages (fst (snd ?L))"
        by (simp add: processImages_run(4) [OF ne])
      moreover from None lenS stop have "\<not> c < length ?P"
        by (auto simp: for_loop_thrown split: if_splits)
      ultimately show ?thesis
        using compl by simp
    next
      case (Some msg)
      then have final: "?F = map (markError (image_id (?P ! 0)) msg) (uploadedImages (fst (snd ?L)))"
        by (simp add: processImages_run(4) [OF ne])
      from Some lenS have cl: "c \<noteq> length ?P"
        by (auto simp: for_loop_thrown split: if_splits)
      have fn: "?F ! n = markError (image_id (?P ! 0)) msg
          ((?U ! n)\<lparr>status := Complete, progress := 100, rawText := raw j\<rparr>)"
        using final compl n lenL by simp
      have later: "0 < j \<longrightarrow> status (?F ! n) = Complete"
      proof
        assume "0 < j"
        then have "0 \<noteq> j"
          by simp
        moreover from ne have "0 < length ?P"
          by simp
        ultimately have "image_id (?P ! 0) \<noteq> image_id (?P ! j)"
          using pending_ids_differ [OF d _ jl] by blast
        with e fn show "status (?F ! n) = Complete"
          by (simp add: markError_def)
      qed
      have first: "j = 0 \<longrightarrow> status (?F ! n) = Error"
        using e fn by (simp add: markError_def)
      from fn cl later first show ?thesis
        by (simp add: markError_def)
    qed
  qed
  from p0 p1 p2 p3 p4 show ?thesis
    by (intro conjI)
qed

text \<open>
  The theorem at a batch of a complete record, a failed one and two pending ones, in a run
  whose third request fails.
\<close>

theorem processImages_success_effects_witness:
  "callApi (example_api 0 (image_file (pendingImages mixed_batch ! 0))) =
     Data ''raw a'' ''<A/>'' \<and>
   callApi (example_api 1 (image_file (pendingImages mixed_batch ! 1))) =
     Data ''raw b'' ''<B/>'' \<and>
   callApi (example_api 2 (image_file (pendingImages mixed_batch ! 2))) = Thrown ''bad scan'' \<and>
   distinct (map image_id (uploadedImages mixed_batch)) \<and>
   uploadedImages
     (fst (snd (for_loop example_api (take 1 (pendingImages mixed_batch))
        (run_start mixed_batch) 0))) ! 1 =
     (example_image ''a'' Complete)
       \<lparr>progress := 100, rawText := ''raw a'', error := Some ''old''\<rparr> \<and>
   snd (snd (for_loop example_api (take 2 (pendingImages mixed_batch))
     (run_start mixed_batch) 0)) = 2 \<and>
   xmlOutput (fst (snd (for_loop example_api (take 2 (pendingImages mixed_batch))
       (run_start mixed_batch) 0))) =
     appendXml ''<B/>''
       (xmlOutput (fst (snd (for_loop example_api (take 1 (pendingImages mixed_batch))
          (run_start mixed_batch) 0)))) \<and>
   snd (processImages example_api mixed_batch) = 2 \<and>
   xmlOutput (fst (processImages example_api mixed_batch)) =
     ''<Z/>'' @ [CHR 0x0A] @ ''<A/>'' @ [CHR 0x0A] @ ''<B/>'' \<and>
   rawText (uploadedImages (fst (processImages example_api mixed_batch)) ! 2) = ''raw b'' \<and>
   progress (uploadedImages (fst (processImages example_api mixed_batch)) ! 2) = 100 \<and>
   parsedData (uploadedImages (fst (processImages example_api mixed_batch)) ! 2) = None \<and>
   status (uploadedImages (fst (processImages example_api mixed_batch)) ! 2) = Complete \<and>
   rawText (uploadedImages (fst (processImages example_api mixed_batch)) ! 1) = ''raw a'' \<and>
   status (uploadedImages (fst (processImages example_api mixed_batch)) ! 1) = Error"
proof -
  let ?raw = "\<lambda>j::nat. if j = 0 then ''raw a'' else ''raw b''"
  let ?xml = "\<lambda>j::nat. if j = 0 then ''<A/>'' else ''<B/>''"
  let ?P = "pendingImages mixed_batch"
  let ?U = "uploadedImages mixed_batch"
  let ?F = "uploadedImages (fst (processImages example_api mixed_batch))"
  let ?T = "\<lambda>j. for_loop example_api (take j ?P) (run_start mixed_batch) 0"
  have d: "distinct (map image_id ?U)"
    by (simp add: mixed_batch_eval example_image_def)
  have c: "2 \<le> length ?P"
    by (simp add: mixed_batch_eval)
  have oks: "\<forall>j<2. callApi (example_api (length (requests mixed_batch) + j)
      (image_file (?P ! j))) = Data (?raw j) (?xml j)"
    by (auto simp: mixed_batch_eval example_api_def callApi_def less_2_cases_iff)
  have e2: "callApi (example_api 2 (image_file (?P ! 2))) = Thrown ''bad scan''"
    by (simp add: example_api_def callApi_def)
  have stop: "2 < length ?P \<longrightarrow>
      (\<exists>m. callApi (example_api (length (requests mixed_batch) + 2)
         (image_file (?P ! 2))) = Thrown m)"
    by (simp add: mixed_batch_eval example_api_def callApi_def)
  note t = processImages_success_effects [OF c oks stop]
  from t have p1: "\<forall>j<2.
       for_loop example_api ?P (run_start mixed_batch) 0 =
         for_loop example_api (drop (Suc j) ?P) (fst (snd (?T (Suc j)))) (Suc j) \<and>
       snd (snd (?T j)) = j \<and>
       snd (snd (?T (Suc j))) = Suc j \<and>
       xmlOutput (fst (snd (?T (Suc j)))) = appendXml (?xml j) (xmlOutput (fst (snd (?T j)))) \<and>
       (\<forall>n<length ?U. image_id (?U ! n) = image_id (?P ! j) \<longrightarrow>
          uploadedImages (fst (snd (?T (Suc j)))) ! n =
            (?U ! n)\<lparr>status := Complete, progress := 100, rawText := ?raw j\<rparr>)"
    by (elim conjE) assumption
  from t have p2: "snd (processImages example_api mixed_batch) = 2"
    by (elim conjE) assumption
  from t have p3: "xmlOutput (fst (processImages example_api mixed_batch)) =
      appendAll (xmlOutput mixed_batch) (map ?xml [0..<2])"
    by (elim conjE) assumption
  from t have p4: "distinct (map image_id ?U) \<longrightarrow>
      (\<forall>j n. j < 2 \<and> n < length ?U \<and> ?U ! n = ?P ! j \<longrightarrow>
         rawText (?F ! n) = ?raw j \<and> progress (?F ! n) = 100 \<and>
         parsedData (?F ! n) = parsedData (?U ! n) \<and>
         (0 < j \<or> 2 = length ?P \<longrightarrow> status (?F ! n) = Complete) \<and>
         (j = 0 \<and> 2 < length ?P \<longrightarrow> status (?F ! n) = Error))"
    by (elim conjE) assumption
  from p1 have s0: "\<forall>n<length ?U. image_id (?U ! n) = image_id (?P ! 0) \<longrightarrow>
          uploadedImages (fst (snd (?T (Suc 0)))) ! n =
            (?U ! n)\<lparr>status := Complete, progress := 100, rawText := ?raw 0\<rparr>"
    by simp
  have "1 < length ?U" and "image_id (?U ! 1) = image_id (?P ! 0)"
    by (simp_all add: mixed_batch_eval)
  with s0 have "uploadedImages (fst (snd (?T (Suc 0)))) ! 1 =
      (?U ! 1)\<lparr>status := Complete, progress := 100, rawText := ?raw 0\<rparr>"
    by blast
  then have w1: "uploadedImages (fst (snd (?T 1))) ! 1 =
      (example_image ''a'' Complete)\<lparr>progress := 100, rawText := ''raw a'', error := Some ''old''\<rparr>"
    by (simp add: mixed_batch_eval example_image_def)
  from p1 have "snd (snd (?T (Suc 1))) = Suc 1 \<and>
      xmlOutput (fst (snd (?T (Suc 1)))) = appendXml (?xml 1) (xmlOutput (fst (snd (?T 1))))"
    by simp
  then have w2: "snd (snd (?T 2)) = 2"
    and w3: "xmlOutput (fst (snd (?T 2))) = appendXml ''<B/>'' (xmlOutput (fst (snd (?T 1))))"
    by (simp_all add: numeral_2_eq_2)
  from p3 have w4: "xmlOutput (fst (processImages example_api mixed_batch)) =
      ''<Z/>'' @ [CHR 0x0A] @ ''<A/>'' @ [CHR 0x0A] @ ''<B/>''"
    by (simp add: mixed_batch_def example_state_def appendAll_def appendXml_def upt_rec
        numeral_2_eq_2)
  from p4 d have all: "\<forall>j n. j < 2 \<and> n < length ?U \<and> ?U ! n = ?P ! j \<longrightarrow>
         rawText (?F ! n) = ?raw j \<and> progress (?F ! n) = 100 \<and>
         parsedData (?F ! n) = parsedData (?U ! n) \<and>
         (0 < j \<or> 2 = length ?P \<longrightarrow> status (?F ! n) = Complete) \<and>
         (j = 0 \<and> 2 < length ?P \<longrightarrow> status (?F ! n) = Error)"
    by (rule mp)
  have "(1::nat) < 2 \<and> 2 < length ?U \<and> ?U ! 2 = ?P ! 1"
    by (simp add: mixed_batch_eval)
  with all have "rawText (?F ! 2) = ?raw 1 \<and> progress (?F ! 2) = 100 \<and>
         parsedData (?F ! 2) = parsedData (?U ! 2) \<and>
         (0 < (1::nat) \<or> 2 = length ?P \<longrightarrow> status (?F ! 2) = Complete) \<and>
         (1 = (0::nat) \<and> 2 < length ?P \<longrightarrow> status (?F ! 2) = Error)"
    by blast
  then have w5: "rawText (?F ! 2) = ''raw b''" and w6: "progress (?F ! 2) = 100"
    and w7: "parsedData (?F ! 2) = None" and w8: "status (?F ! 2) = Complete"
    by (simp_all add: mixed_batch_eval example_image_def)
  have "(0::nat) < 2 \<and> 1 < length ?U \<and> ?U ! 1 = ?P ! 0"
    by (simp add: mixed_batch_eval)
  with all have "rawText (?F ! 1) = ?raw 0 \<and> progress (?F ! 1) = 100 \<and>
         parsedData (?F ! 1) = parsedData (?U ! 1) \<and>
         (0 < (0::nat) \<or> 2 = length ?P \<longrightarrow> status (?F ! 1) = Complete) \<and>
         ((0::nat) = 0 \<and> 2 < length ?P \<longrightarrow> status (?F ! 1) = Error)"
    by blast
  then have w9: "rawText (?F ! 1) = ''raw a''" and w10: "status (?F ! 1) = Error"
    by (simp_all add: mixed_batch_eval)
  have e0: "callApi (example_api 0 (image_file (?P ! 0))) = Data ''raw a'' ''<A/>''"
    by (simp add: example_api_def callApi_def)
  have e1: "callApi (example_api 1 (image_file (?P ! 1))) = Data ''raw b'' ''<B/>''"
    by (simp add: example_api_def callApi_def)
  from e0 e1 e2 d w1 w2 w3 p2 w4 w5 w6 w7 w8 w9 w10 show ?thesis
    by (intro conjI)
qed

text \<open>
  Claim C3 as stated fails: after a successful request that returned the fragment
  \<^verbatim>\<open><A/>\<close>, no field of the record holds the fragment; only the combined output does.
\<close>

theorem processImages_does_not_store_xml:
  "uploadedImages (fst (processImages example_api one_pending)) =
     [\<lparr>image_id = ''a'', image_file = \<lparr>name = ''a'', payload = []\<rparr>, preview = ''blob:a'',
       status = Complete, progress = 100, rawText = ''raw a'', parsedData = None,
       error = None\<rparr>] \<and>
   xmlOutput (fst (processImages example_api one_pending)) = ''<A/>''"
  by (simp add: run_defs one_pending_def example_api_def)

subsection \<open>When the combined output is cleared\<close>




subsection \<open>Two successes and a failure\<close>

text \<open>
  Claim C1 does not hold of the code. For three pending records whose first two requests
  succeed and whose third fails, the run ends with the first record in status \<open>Error\<close>,
  carrying the message of the third request, the second \<open>Complete\<close> and the third still
  \<open>Processing\<close>; both fragments are in the combined output and the reported count is 2.
\<close>

theorem processImages_third_fails_marks_first:
  "map status (uploadedImages (fst (processImages example_api three_pending))) =
     [Error, Complete, Processing] \<and>
   map error (uploadedImages (fst (processImages example_api three_pending))) =
     [Some ''bad scan'', None, None] \<and>
   map progress (uploadedImages (fst (processImages example_api three_pending))) =
     [100, 100, 30] \<and>
   xmlOutput (fst (processImages example_api three_pending)) = ''<A/>'' @ [CHR 0x0A] @ ''<B/>'' \<and>
   snd (processImages example_api three_pending) = 2 \<and>
   map description (toasts (processImages_settled example_api three_pending)) =
     [''bad scan'', ''Successfully processed 2 document(s).'']"
  by (simp add: run_defs three_pending_def example_api_def processImages_settled_def
      successTimeout_def digits.simps digit_char_two)

section \<open>The XML to CSV converter\<close>

subsection \<open>Scanning, trimming and replacing\<close>

lemma straddle: "p = a @ t # us \<Longrightarrow> a \<noteq> [] \<Longrightarrow> t \<in> set (tl p)"
  by (cases a) auto

lemma removeSentinels_MISSING: "removeSentinels (''MISSING'' @ x) = removeSentinels x"
  by simp

lemma removeSentinels_UNREADABLE: "removeSentinels (''UNREADABLE'' @ x) = removeSentinels x"
  by simp

lemma no_straddle:
  assumes tok: "tok = ''MISSING'' \<or> tok = ''UNREADABLE''"
    and p: "p = ''MISSING'' \<or> p = ''UNREADABLE''"
    and a: "a \<noteq> []" and n: "\<not> prefix p a"
  shows "\<not> prefix p (a @ tok @ b)"
proof
  assume "prefix p (a @ tok @ b)"
  with n obtain us where us: "p = a @ us" and pre: "prefix us (tok @ b)"
    by (auto simp: prefix_append)
  from us n have "us \<noteq> []"
    by auto
  then obtain t us' where t: "us = t # us'"
    by (cases us) auto
  with pre tok have "t = CHR ''M'' \<or> t = CHR ''U''"
    by auto
  moreover from us t a have "t \<in> set (tl p)"
    by (intro straddle [of p a t us']) simp_all
  ultimately show False
    using p by auto
qed

lemma removeSentinels_step:
  assumes m: "\<not> prefix ''MISSING'' (c # cs)" and u: "\<not> prefix ''UNREADABLE'' (c # cs)"
  shows "removeSentinels (c # cs) = c # removeSentinels cs"
proof -
  have "removeSentinels (c # cs) =
     (if prefix ''MISSING'' (c # cs) then removeSentinels (drop 7 (c # cs))
      else if prefix ''UNREADABLE'' (c # cs) then removeSentinels (drop 10 (c # cs))
      else c # removeSentinels cs)"
    by (rule removeSentinels.simps(2))
  with m u show ?thesis
    by (simp only: if_False)
qed

lemma removeSentinels_occurrence:
  assumes tok: "tok = ''MISSING'' \<or> tok = ''UNREADABLE''"
  shows "removeSentinels (a @ tok @ b) = removeSentinels a @ removeSentinels b"
proof (induction a rule: length_induct)
  case (1 a)
  show ?case
  proof (cases a)
    case Nil
    with tok show ?thesis by auto
  next
    case (Cons c a')
    then have ne: "a \<noteq> []" by simp
    consider (m) "prefix ''MISSING'' a"
      | (u) "prefix ''UNREADABLE'' a"
      | (n) "\<not> prefix ''MISSING'' a" "\<not> prefix ''UNREADABLE'' a"
      by blast
    then show ?thesis
    proof cases
      case m
      then obtain r where r: "a = ''MISSING'' @ r"
        by (auto simp: prefix_def)
      then have "length r < length a" by simp
      with 1 have "removeSentinels (r @ tok @ b) = removeSentinels r @ removeSentinels b"
        by blast
      moreover have "removeSentinels (a @ tok @ b) = removeSentinels (r @ tok @ b)"
        unfolding r append_assoc by (rule removeSentinels_MISSING)
      moreover have "removeSentinels a = removeSentinels r"
        unfolding r by (rule removeSentinels_MISSING)
      ultimately show ?thesis by simp
    next
      case u
      then obtain r where r: "a = ''UNREADABLE'' @ r"
        by (auto simp: prefix_def)
      then have "length r < length a" by simp
      with 1 have "removeSentinels (r @ tok @ b) = removeSentinels r @ removeSentinels b"
        by blast
      moreover have "removeSentinels (a @ tok @ b) = removeSentinels (r @ tok @ b)"
        unfolding r append_assoc by (rule removeSentinels_UNREADABLE)
      moreover have "removeSentinels a = removeSentinels r"
        unfolding r by (rule removeSentinels_UNREADABLE)
      ultimately show ?thesis by simp
    next
      case n
      have nm: "\<not> prefix ''MISSING'' (a @ tok @ b)"
        using tok ne n(1) by (intro no_straddle) simp_all
      have nu: "\<not> prefix ''UNREADABLE'' (a @ tok @ b)"
        using tok ne n(2) by (intro no_straddle) simp_all
      from Cons have "length a' < length a" by simp
      with 1 have ih: "removeSentinels (a' @ tok @ b) = removeSentinels a' @ removeSentinels b"
        by blast
      have "removeSentinels (a @ tok @ b) = c # removeSentinels (a' @ tok @ b)"
        using nm nu unfolding Cons append_Cons by (rule removeSentinels_step)
      moreover have "removeSentinels a = c # removeSentinels a'"
        using n unfolding Cons by (rule removeSentinels_step)
      ultimately show ?thesis using ih by simp
    qed
  qed
qed

lemma removeSentinels_none:
  "\<not> sublist ''MISSING'' s \<Longrightarrow> \<not> sublist ''UNREADABLE'' s \<Longrightarrow> removeSentinels s = s"
proof (induction s)
  case Nil
  then show ?case by simp
next
  case (Cons c cs)
  from Cons.prems have m: "\<not> prefix ''MISSING'' (c # cs)"
    and u: "\<not> prefix ''UNREADABLE'' (c # cs)"
    and "\<not> sublist ''MISSING'' cs" and "\<not> sublist ''UNREADABLE'' cs"
    unfolding sublist_Cons_right by blast+
  with Cons.IH have "removeSentinels cs = cs"
    by blast
  with removeSentinels_step [OF m u] show ?case
    by (simp only:)
qed

lemma trim_ends:
  "trim s = [] \<or> (\<not> isWhiteSpace (hd (trim s)) \<and> \<not> isWhiteSpace (last (trim s)))"
proof (cases "trim s = []")
  case True
  then show ?thesis by simp
next
  case False
  let ?y = "rev (dropWhile isWhiteSpace s)"
  from False have d: "dropWhile isWhiteSpace ?y \<noteq> []"
    by (simp add: trim_def)
  have y: "?y \<noteq> []"
  proof
    assume "?y = []"
    then have "dropWhile isWhiteSpace ?y = []"
      by (simp only: dropWhile.simps)
    with d show False ..
  qed
  have "last (trim s) = hd (dropWhile isWhiteSpace ?y)"
    using d by (simp add: trim_def last_rev)
  then have l: "\<not> isWhiteSpace (last (trim s))"
    using d hd_dropWhile [of isWhiteSpace ?y] by simp
  have "?y = takeWhile isWhiteSpace ?y @ dropWhile isWhiteSpace ?y"
    by simp
  then have "last ?y = last (dropWhile isWhiteSpace ?y)"
    using d by (metis last_appendR)
  moreover have "hd (trim s) = last (dropWhile isWhiteSpace ?y)"
    using d by (simp add: trim_def hd_rev)
  moreover have "last ?y = hd (dropWhile isWhiteSpace s)"
    using y by (simp add: last_rev)
  ultimately have "hd (trim s) = hd (dropWhile isWhiteSpace s)"
    by simp
  moreover from y have "dropWhile isWhiteSpace s \<noteq> []"
    by simp
  ultimately have "\<not> isWhiteSpace (hd (trim s))"
    using hd_dropWhile [of isWhiteSpace s] by simp
  with l show ?thesis by simp
qed

lemma trim_fixed:
  assumes "t = [] \<or> (\<not> isWhiteSpace (hd t) \<and> \<not> isWhiteSpace (last t))"
  shows "trim t = t"
proof (cases "t = []")
  case True
  then show ?thesis by (simp add: trim_def)
next
  case False
  with assms have h: "\<not> isWhiteSpace (hd t)" and l: "\<not> isWhiteSpace (last t)"
    by simp_all
  from False h have "dropWhile isWhiteSpace t = t"
    by (cases t) simp_all
  moreover from False l have "dropWhile isWhiteSpace (rev t) = rev t"
    by (cases "rev t") (simp_all add: hd_rev [symmetric])
  ultimately show ?thesis
    by (simp add: trim_def)
qed

lemma trim_idem: "trim (trim s) = trim s"
  by (rule trim_fixed) (rule trim_ends)

lemma trim_Nil: "trim [] = []"
  by (simp add: trim_def)

lemma getText_trimmed: "trim (getText sel doc) = getText sel doc"
  by (simp add: getText_def trim_idem trim_Nil split: option.split)

lemma replaceFirst_prefix: "pat \<noteq> [] \<Longrightarrow> replaceFirst pat rep (pat @ rest) = rep @ rest"
  by (cases pat) simp_all

lemma replaceFirst_none: "\<not> sublist pat s \<Longrightarrow> replaceFirst pat rep s = s"
proof (induction s)
  case Nil
  then show ?case by (cases pat) simp_all
next
  case (Cons c cs)
  then show ?case by (auto simp: sublist_Cons_right)
qed

lemma replaceFirst_first:
  "pat \<noteq> [] \<Longrightarrow> \<forall>i<length a. \<not> prefix pat (drop i (a @ pat @ b)) \<Longrightarrow>
   replaceFirst pat rep (a @ pat @ b) = a @ rep @ b"
proof (induction a)
  case Nil
  then show ?case by (simp add: replaceFirst_prefix)
next
  case (Cons c a)
  from Cons.prems(2) have "\<not> prefix pat (drop 0 ((c # a) @ pat @ b))"
    by blast
  then have h: "\<not> prefix pat (c # a @ pat @ b)"
    by simp
  have "\<forall>i<length a. \<not> prefix pat (drop i (a @ pat @ b))"
  proof (intro allI impI)
    fix i assume "i < length a"
    then have "Suc i < length (c # a)" by simp
    with Cons.prems(2) have "\<not> prefix pat (drop (Suc i) ((c # a) @ pat @ b))"
      by blast
    then show "\<not> prefix pat (drop i (a @ pat @ b))" by simp
  qed
  with Cons.IH Cons.prems(1) h show ?case
    by simp
qed

lemma join_Cons: "join sep (x # ys) = x @ concat (map (\<lambda>y. sep @ y) ys)"
  by (induction ys arbitrary: x) simp_all

lemma convertXmlToCsv_header:
  "prefix (join '','' headers) (convertXmlToCsv (\<lambda>w. Inr d) s)"
  by (simp add: convertXmlToCsv_def Let_def join_Cons)

lemmas csv_defs =
  rowFields_def getText_def querySelector_def matchesSelector_def trim_def isWhiteSpace_def
  getElementsByTagName_def quoteField_def headers_def convertXmlToCsv_def

lemma dosage_row:
  "rowFields ([''Root''], dosage_document) =
     [''RX-1001'', [], [], [], [], [], [], ''Amoxicillin'', ''Dosage: 500mg'',
      [], [], [], [], [], []]"
  by (simp add: csv_defs dosage_document_def)

lemma notes_eval:
  "getText [''Notes''] ([''Root''], dosage_document) = ''Order ID: RX-1001''"
  "getText [''Notes''] ([''Root''], refill_document) = ''Refill. Order ID: RX-1001''"
  "getText [''Notes''] ([''Root''], plain_notes_document) = ''Take with food''"
  by (simp_all add: csv_defs dosage_document_def refill_document_def plain_notes_document_def)

lemma dosage_queries:
  "querySelector [''Vitals'', ''Height''] ([''Root''], dosage_document) = None"
  "querySelector [''Prescription'', ''Medicine'', ''Dosage''] ([''Root''], dosage_document) =
     Some ([''Medicine'', ''Prescription'', ''MedicalDocument'', ''Root''],
           Element ''Dosage'' [Text ''Dosage: 500mg MISSING''])"
  by (simp_all add: querySelector_def matchesSelector_def dosage_document_def)

subsection \<open>Sentinel values\<close>

text \<open>
  Claim C8, as amended. An occurrence of \<^verbatim>\<open>MISSING\<close> or \<^verbatim>\<open>UNREADABLE\<close> in a text is
  removed and the text on both sides of it is treated on its own; a text that holds
  neither is left as it is. The value \<^verbatim>\<open>getText\<close> extracts is empty when no element matches
  the selector and otherwise the text of the first matching element with the sentinels
  removed and then trimmed, so it neither starts nor ends with white space. Nothing else is
  removed: a dosage element holding \<^verbatim>\<open>Dosage: 500mg MISSING\<close> gives \<^verbatim>\<open>Dosage: 500mg\<close> in
  the Dosage column.
\<close>

theorem getText_removes_sentinels_and_trims:
  "removeSentinels (a @ ''MISSING'' @ b) = removeSentinels a @ removeSentinels b \<and>
   removeSentinels (a @ ''UNREADABLE'' @ b) = removeSentinels a @ removeSentinels b \<and>
   (\<not> sublist ''MISSING'' s \<and> \<not> sublist ''UNREADABLE'' s \<longrightarrow> removeSentinels s = s) \<and>
   (querySelector sel doc = None \<longrightarrow> getText sel doc = []) \<and>
   (querySelector sel doc = Some el \<longrightarrow>
      getText sel doc = trim (removeSentinels (textContent (snd el)))) \<and>
   (getText sel doc = [] \<or>
      (\<not> isWhiteSpace (hd (getText sel doc)) \<and> \<not> isWhiteSpace (last (getText sel doc)))) \<and>
   rowFields ([''Root''], dosage_document) ! 8 = ''Dosage: 500mg''"
proof -
  have m: "removeSentinels (a @ ''MISSING'' @ b) = removeSentinels a @ removeSentinels b"
    by (rule removeSentinels_occurrence) blast
  have u: "removeSentinels (a @ ''UNREADABLE'' @ b) = removeSentinels a @ removeSentinels b"
    by (rule removeSentinels_occurrence) blast
  have n: "\<not> sublist ''MISSING'' s \<and> \<not> sublist ''UNREADABLE'' s \<longrightarrow> removeSentinels s = s"
    using removeSentinels_none by blast
  have g0: "querySelector sel doc = None \<longrightarrow> getText sel doc = []"
    by (simp add: getText_def)
  have g1: "querySelector sel doc = Some el \<longrightarrow>
      getText sel doc = trim (removeSentinels (textContent (snd el)))"
    by (simp add: getText_def)
  have t: "getText sel doc = [] \<or>
      (\<not> isWhiteSpace (hd (getText sel doc)) \<and> \<not> isWhiteSpace (last (getText sel doc)))"
    using trim_ends by (auto simp: getText_def split: option.split)
  have d: "rowFields ([''Root''], dosage_document) ! 8 = ''Dosage: 500mg''"
    by (simp add: dosage_row)
  from m u n g0 g1 t d show ?thesis
    by (intro conjI)
qed

text \<open>The theorem at the fields of the example fragment.\<close>

theorem getText_removes_sentinels_and_trims_witness:
  "\<not> sublist ''MISSING'' ''Amoxicillin'' \<and> \<not> sublist ''UNREADABLE'' ''Amoxicillin'' \<and>
   removeSentinels ''Amoxicillin'' = ''Amoxicillin'' \<and>
   removeSentinels ''Dosage: 500mg MISSING'' = ''Dosage: 500mg '' \<and>
   querySelector [''Vitals'', ''Height''] ([''Root''], dosage_document) = None \<and>
   getText [''Vitals'', ''Height''] ([''Root''], dosage_document) = [] \<and>
   querySelector [''Prescription'', ''Medicine'', ''Dosage''] ([''Root''], dosage_document) =
     Some ([''Medicine'', ''Prescription'', ''MedicalDocument'', ''Root''],
           Element ''Dosage'' [Text ''Dosage: 500mg MISSING'']) \<and>
   getText [''Prescription'', ''Medicine'', ''Dosage''] ([''Root''], dosage_document) =
     ''Dosage: 500mg''"
proof -
  have s1: "\<not> sublist ''MISSING'' ''Amoxicillin''" and s2: "\<not> sublist ''UNREADABLE'' ''Amoxicillin''"
    by (simp_all add: sublist_Cons_right)
  note t1 = getText_removes_sentinels_and_trims
    [of "''Dosage: 500mg ''" "[]" "''Amoxicillin''" "[''Vitals'', ''Height'']"
        "([''Root''], dosage_document)"]
  note t2 = getText_removes_sentinels_and_trims
    [of "[]" "[]" "[]" "[''Prescription'', ''Medicine'', ''Dosage'']"
        "([''Root''], dosage_document)"
        "([''Medicine'', ''Prescription'', ''MedicalDocument'', ''Root''],
           Element ''Dosage'' [Text ''Dosage: 500mg MISSING''])"]
  from t1 s1 s2 have r1: "removeSentinels ''Amoxicillin'' = ''Amoxicillin''"
    by blast
  from t1 have "removeSentinels (''Dosage: 500mg '' @ ''MISSING'' @ []) =
      removeSentinels ''Dosage: 500mg '' @ removeSentinels []"
    by blast
  moreover have "removeSentinels ''Dosage: 500mg '' = ''Dosage: 500mg ''"
    by simp
  ultimately have r2: "removeSentinels ''Dosage: 500mg MISSING'' = ''Dosage: 500mg ''"
    by simp
  from t1 dosage_queries(1) have r3:
    "getText [''Vitals'', ''Height''] ([''Root''], dosage_document) = []"
    by blast
  from t2 dosage_queries(2) have
    "getText [''Prescription'', ''Medicine'', ''Dosage''] ([''Root''], dosage_document) =
       trim (removeSentinels (textContent (Element ''Dosage'' [Text ''Dosage: 500mg MISSING''])))"
    by simp
  then have r4:
    "getText [''Prescription'', ''Medicine'', ''Dosage''] ([''Root''], dosage_document) =
       ''Dosage: 500mg''"
    by (simp add: trim_def isWhiteSpace_def)
  from s1 s2 r1 r2 r3 r4 dosage_queries show ?thesis
    by (intro conjI)
qed

text \<open>
  Claim C8 as stated fails: for the example fragment the Dosage column is
  \<^verbatim>\<open>Dosage: 500mg\<close>, not \<^verbatim>\<open>500mg\<close>.
\<close>

theorem dosage_label_is_kept:
  "convertXmlToCsv example_parser dosage_markup =
     join [CHR 0x0A]
       [join '','' headers,
        join '','' (map quoteField
          [''RX-1001'', [], [], [], [], [], [], ''Amoxicillin'', ''Dosage: 500mg'',
           [], [], [], [], [], []])] \<and>
   rowFields ([''Root''], dosage_document) ! 8 \<noteq> ''500mg''"
proof -
  have "getElementsByTagName ''MedicalDocument'' (Element ''Root'' [dosage_document]) =
      [([''Root''], dosage_document)]"
    by (simp add: getElementsByTagName_def dosage_document_def)
  then have "convertXmlToCsv example_parser dosage_markup =
     join [CHR 0x0A]
       [join '','' headers, join '','' (map quoteField (rowFields ([''Root''], dosage_document)))]"
    by (simp add: convertXmlToCsv_def example_parser_def)
  then show ?thesis
    by (simp add: dosage_row)
qed

subsection \<open>The Order ID column\<close>

text \<open>
  Claim C9, as amended. The first field of a row is the notes field with the first
  occurrence of \<^verbatim>\<open>Order ID:\<close> removed, wherever it stands, and the result trimmed: when
  the notes field starts with \<^verbatim>\<open>Order ID:\<close> it is the rest of the field, trimmed; when the
  first occurrence starts behind a text \<open>a\<close> and is followed by \<open>b\<close>, it is \<open>a @ b\<close>, trimmed;
  and when \<^verbatim>\<open>Order ID:\<close> does not occur in the notes field, it is the notes field unchanged.
\<close>

theorem order_id_column:
  "(getText [''Notes''] doc = ''Order ID:'' @ rest \<longrightarrow> rowFields doc ! 0 = trim rest) \<and>
   (getText [''Notes''] doc = a @ ''Order ID:'' @ b \<and>
    (\<forall>i<length a. \<not> prefix ''Order ID:'' (drop i (a @ ''Order ID:'' @ b))) \<longrightarrow>
      rowFields doc ! 0 = trim (a @ b)) \<and>
   (\<not> sublist ''Order ID:'' (getText [''Notes''] doc) \<longrightarrow>
      rowFields doc ! 0 = getText [''Notes''] doc)"
proof -
  have f: "rowFields doc ! 0 = trim (replaceFirst ''Order ID:'' [] (getText [''Notes''] doc))"
    by (simp add: rowFields_def)
  have "getText [''Notes''] doc = ''Order ID:'' @ rest \<longrightarrow> rowFields doc ! 0 = trim rest"
    using replaceFirst_prefix [of "''Order ID:''" "[]" rest] by (simp add: f)
  moreover have "getText [''Notes''] doc = a @ ''Order ID:'' @ b \<and>
    (\<forall>i<length a. \<not> prefix ''Order ID:'' (drop i (a @ ''Order ID:'' @ b))) \<longrightarrow>
      rowFields doc ! 0 = trim (a @ b)"
    using replaceFirst_first [of "''Order ID:''" a b "[]"] by (simp add: f)
  moreover have "\<not> sublist ''Order ID:'' (getText [''Notes''] doc) \<longrightarrow>
      rowFields doc ! 0 = getText [''Notes''] doc"
    by (simp add: f replaceFirst_none getText_trimmed)
  ultimately show ?thesis
    by blast
qed

text \<open>The theorem at the three example documents.\<close>

theorem order_id_column_witness:
  "getText [''Notes''] ([''Root''], dosage_document) = ''Order ID:'' @ '' RX-1001'' \<and>
   rowFields ([''Root''], dosage_document) ! 0 = ''RX-1001'' \<and>
   getText [''Notes''] ([''Root''], refill_document) = ''Refill. '' @ ''Order ID:'' @ '' RX-1001'' \<and>
   rowFields ([''Root''], refill_document) ! 0 = ''Refill.  RX-1001'' \<and>
   \<not> sublist ''Order ID:'' (getText [''Notes''] ([''Root''], plain_notes_document)) \<and>
   rowFields ([''Root''], plain_notes_document) ! 0 = ''Take with food''"
proof -
  have n1: "getText [''Notes''] ([''Root''], dosage_document) = ''Order ID:'' @ '' RX-1001''"
    by (simp add: notes_eval)
  have n2: "getText [''Notes''] ([''Root''], refill_document) =
      ''Refill. '' @ ''Order ID:'' @ '' RX-1001''"
    by (simp add: notes_eval)
  have first: "\<forall>i<length ''Refill. ''.
      \<not> prefix ''Order ID:'' (drop i (''Refill. '' @ ''Order ID:'' @ '' RX-1001''))"
    by (simp add: less_Suc_eq all_conj_distrib numeral_eq_Suc)
  have n3: "\<not> sublist ''Order ID:'' (getText [''Notes''] ([''Root''], plain_notes_document))"
    by (simp add: notes_eval sublist_Cons_right)
  from order_id_column [of "([''Root''], dosage_document)" "'' RX-1001''" "[]" "[]"] n1
  have "rowFields ([''Root''], dosage_document) ! 0 = trim '' RX-1001''"
    by blast
  then have r1: "rowFields ([''Root''], dosage_document) ! 0 = ''RX-1001''"
    by (simp add: trim_def isWhiteSpace_def)
  from order_id_column [of "([''Root''], refill_document)" "[]" "''Refill. ''" "'' RX-1001''"]
    n2 first
  have "rowFields ([''Root''], refill_document) ! 0 = trim (''Refill. '' @ '' RX-1001'')"
    by blast
  then have r2: "rowFields ([''Root''], refill_document) ! 0 = ''Refill.  RX-1001''"
    by (simp add: trim_def isWhiteSpace_def)
  from order_id_column [of "([''Root''], plain_notes_document)" "[]" "[]" "[]"] n3
  have "rowFields ([''Root''], plain_notes_document) ! 0 =
      getText [''Notes''] ([''Root''], plain_notes_document)"
    by blast
  then have r3: "rowFields ([''Root''], plain_notes_document) ! 0 = ''Take with food''"
    by (simp add: notes_eval)
  from n1 r1 n2 r2 n3 r3 show ?thesis
    by (intro conjI)
qed

text \<open>
  Claim C9 as stated fails: a notes field that does not start with \<^verbatim>\<open>Order ID:\<close> but holds
  it further on loses that occurrence.
\<close>

theorem order_id_removed_inside_notes:
  "getText [''Notes''] ([''Root''], refill_document) = ''Refill. Order ID: RX-1001'' \<and>
   \<not> prefix ''Order ID:'' (getText [''Notes''] ([''Root''], refill_document)) \<and>
   rowFields ([''Root''], refill_document) ! 0 = ''Refill.  RX-1001'' \<and>
   rowFields ([''Root''], refill_document) ! 0 \<noteq> getText [''Notes''] ([''Root''], refill_document)"
  by (simp add: csv_defs refill_document_def)

subsection \<open>Input that does not parse\<close>

text \<open>
  Claim C5 does not hold of the code. Whenever the parser returns a document, whatever it
  holds, the result starts with the header line and is not empty. The browser's parser
  does not throw on markup that is not well-formed, it returns an error document; for the
  malformed input \<^verbatim>\<open><MedicalDocument>\<close> the result is the header line, not the empty string.
\<close>

theorem convertXmlToCsv_error_document_gives_header:
  "prefix (join '','' headers) (convertXmlToCsv (\<lambda>w. Inr d) s) \<and>
   convertXmlToCsv (\<lambda>w. Inr d) s \<noteq> [] \<and>
   convertXmlToCsv example_parser ''<MedicalDocument>'' =
     ''Order ID,Patient Name,DOB,Gender,Doctor Name,License,Clinic,Medicine,Dosage,Frequency,Duration,Height,Weight,Blood Type,BP''"
proof -
  have p: "prefix (join '','' headers) (convertXmlToCsv (\<lambda>w. Inr d) s)"
    by (rule convertXmlToCsv_header)
  have "join '','' headers \<noteq> []"
    by (simp add: headers_def)
  with p have "convertXmlToCsv (\<lambda>w. Inr d) s \<noteq> []"
    by auto
  moreover have "convertXmlToCsv example_parser ''<MedicalDocument>'' =
     ''Order ID,Patient Name,DOB,Gender,Doctor Name,License,Clinic,Medicine,Dosage,Frequency,Duration,Height,Weight,Blood Type,BP''"
    by (simp add: csv_defs example_parser_def dosage_markup_def parsererror_document_def)
  ultimately show ?thesis
    using p by simp
qed

end
